theory Spec2Isabelle
  imports Complex_Main
begin

section \<open>Python values, errors and sequence operations\<close>

text \<open>
  The programs are Python. Floats are idealised as the reals: NaN and rounding are not
  represented, so a request token that \<open>conv_float\<close> cannot parse (it yields NaN in the
  source) has no counterpart below. Every exception the modelled code can raise is a value
  of \<open>py_error\<close>, carrying its message; a function that can raise returns
  \<open>py_error + 'a\<close>.
  \<open>NanResult\<close> marks the one place where the source continues with NaN
  (\<open>np.median\<close> of an empty slice).
\<close>

datatype py_error =
    IndexError string
  | ValueError string
  | ZeroDivisionError string
  | KeyError string
  | NameError string
  | LibraryError string
  | NanResult

text \<open>Python indexing \<open>xs[i]\<close>: a negative index counts from the end.\<close>

definition py_get :: "'a list \<Rightarrow> int \<Rightarrow> py_error + 'a" where
  "py_get xs i =
     (if 0 \<le> i \<and> i < int (length xs) then Inr (xs ! nat i)
      else if i < 0 \<and> - int (length xs) \<le> i then Inr (xs ! nat (int (length xs) + i))
      else Inl (IndexError ''list index out of range''))"

text \<open>Python slicing \<open>xs[i:j]\<close> with the bounds clipped as the interpreter does.\<close>

definition slice_bound :: "nat \<Rightarrow> int \<Rightarrow> nat" where
  "slice_bound n i = (if i < 0 then nat (max (int n + i) 0) else min (nat i) n)"

definition py_slice :: "'a list \<Rightarrow> int \<Rightarrow> int \<Rightarrow> 'a list" where
  "py_slice xs i j =
     (let lo = slice_bound (length xs) i; hi = slice_bound (length xs) j
      in take (hi - lo) (drop lo xs))"

text \<open>\<open>','.join(strings)\<close>\<close>

fun join_comma :: "string list \<Rightarrow> string" where
  "join_comma [] = []"
| "join_comma [s] = s"
| "join_comma (s # t # ss) = s @ '','' @ join_comma (t # ss)"

section \<open>The sample ring\<close>

text \<open>
  \<open>bufidx\<close> holds one list \<open>[recno, wavetime]\<close> per sample and \<open>bufadc\<close> the list of
  channel values of the same sample. Both are global lists in \<open>daq_server.py\<close>. The record
  number is a Python int; it is embedded in the reals here, since the code only stores it.
\<close>

record sample_ring =
  bufidx :: "real list list"
  bufadc :: "real list list"

definition ring_empty :: sample_ring where
  "ring_empty = \<lparr>bufidx = [], bufadc = []\<rparr>"

text \<open>The timestamp of the entry at position \<open>i\<close> (\<open>bufidx[i][1]\<close>).\<close>

definition tstamp :: "real list list \<Rightarrow> nat \<Rightarrow> real" where
  "tstamp b i = b ! i ! 1"

definition well_formed :: "real list list \<Rightarrow> bool" where
  "well_formed b = (\<forall>e \<in> set b. 2 \<le> length e)"

subsection \<open>\<open>find_time_index\<close>\<close>

text \<open>\<open>while len(bufidx[0]) < 2: bufidx.pop(0)\<close>; \<open>bufidx[0]\<close> raises on the empty list.\<close>

fun pop_malformed_head :: "real list list \<Rightarrow> py_error option \<times> real list list" where
  "pop_malformed_head [] = (Some (IndexError ''list index out of range''), [])"
| "pop_malformed_head (e # es) =
     (if length e < 2 then pop_malformed_head es else (None, e # es))"

text \<open>\<open>while len(bufidx[-1]) < 2: bufidx.pop(-1)\<close>\<close>

function pop_malformed_tail :: "real list list \<Rightarrow> py_error option \<times> real list list" where
  "pop_malformed_tail b =
     (if b = [] then (Some (IndexError ''list index out of range''), [])
      else if length (last b) < 2 then pop_malformed_tail (butlast b)
      else (None, b))"
  by pat_completeness auto
termination
  by (relation "measure length") auto

declare pop_malformed_tail.simps [simp del]

text \<open>
  The \<open>for p in range(len(bufidx))\<close> loop with its \<open>else\<close> clause. The range \<open>n\<close> is fixed
  when the loop starts; \<open>bufidx.pop(p)\<close> shortens the list under it, so a later
  \<open>bufidx[p]\<close> can raise.
\<close>

function scan_index :: "real \<Rightarrow> nat \<Rightarrow> nat \<Rightarrow> real list list \<Rightarrow> (py_error + int) \<times> real list list" where
  "scan_index t p n b =
     (if p < n then
        (if p < length b then
           (if 1 < length (b ! p) then
              (if t \<le> b ! p ! 1 then (Inr (int p), b) else scan_index t (Suc p) n b)
            else scan_index t (Suc p) n (take p b @ drop (Suc p) b))
         else (Inl (IndexError ''list index out of range''), b))
      else (Inr (int (length b) - 1), b))"
  by pat_completeness auto
termination
  by (relation "measure (\<lambda>(t, p, n, b). n - p)") auto

declare scan_index.simps [simp del]

text \<open>
  The body of the \<open>try\<close> block. When both \<open>while\<close> loops have ended normally the list is
  not empty and its first and last entries have a timestamp (lemmas \<open>pop_malformed_head_ends\<close> and \<open>pop_malformed_tail_ends\<close>),
  so \<open>bufidx[0][1]\<close> and \<open>bufidx[-1][1]\<close> are read directly.
\<close>

definition find_time_index_try :: "real \<Rightarrow> real list list \<Rightarrow> (py_error + int) \<times> real list list" where
  "find_time_index_try t b =
     (case pop_malformed_head b of
        (Some e, b1) \<Rightarrow> (Inl e, b1)
      | (None, b1) \<Rightarrow>
          (case pop_malformed_tail b1 of
             (Some e, b2) \<Rightarrow> (Inl e, b2)
           | (None, b2) \<Rightarrow>
               if hd b2 ! 1 \<le> t \<and> t \<le> last b2 ! 1 then scan_index t 0 (length b2) b2
               else if t < hd b2 ! 1 then (Inr 0, b2)
               else (Inr (int (length b2) - 1), b2)))"

text \<open>\<open>except IndexError: return 0\<close>. The result is the index and the list as the call left it.\<close>

definition find_time_index :: "real \<Rightarrow> real list list \<Rightarrow> int \<times> real list list" where
  "find_time_index t b =
     (case find_time_index_try t b of
        (Inl e, b') \<Rightarrow> (0, b')
      | (Inr p, b') \<Rightarrow> (p, b'))"


section \<open>The runtime: formatting, parsing and the peak finder\<close>

text \<open>
  Python's number formatting and parsing and \<open>scipy.signal.find_peaks\<close> are not code of
  the repository. They are parameters of the model:
  \<open>fmt_fixed d x\<close> is \<open>'{:.df}'.format(x)\<close>, \<open>fmt_repr x\<close> is \<open>f'{x}'\<close>,
  \<open>parse_float s\<close> is \<open>float(s)\<close> (\<open>None\<close> when it raises) and
  \<open>find_peaks y height distance\<close> is the index array the library returns, or the error it
  raises.
\<close>

record runtime =
  fmt_fixed :: "nat \<Rightarrow> real \<Rightarrow> string"
  fmt_repr :: "real \<Rightarrow> string"
  parse_float :: "string \<Rightarrow> real option"
  find_peaks :: "real list \<Rightarrow> real \<Rightarrow> real \<Rightarrow> py_error + nat list"

text \<open>\<open>f'{e}'\<close> for an exception \<open>e\<close>: every error carries its message.\<close>

fun exc_str :: "py_error \<Rightarrow> string" where
  "exc_str (IndexError m) = m"
| "exc_str (ValueError m) = m"
| "exc_str (ZeroDivisionError m) = m"
| "exc_str (KeyError m) = m"
| "exc_str (NameError m) = m"
| "exc_str (LibraryError m) = m"
| "exc_str NanResult = ''nan''"

section \<open>The sensor catalog\<close>

text \<open>
  Class \<open>Sensor\<close> and its subclasses. \<open>fmt\<close> is the number of decimals of the format
  template (\<open>'{:.6f}'\<close> or \<open>'{:.2f}'\<close>); \<open>val\<close> converts the raw ADC reading and can
  raise.
\<close>

record sensor =
  name :: string
  plot :: string
  label :: string
  unit :: string
  fmt :: nat
  val :: "real \<Rightarrow> py_error + real"

text \<open>\<open>Sensor.val\<close>: the base class returns the reading unchanged.\<close>

definition Sensor_val :: "real \<Rightarrow> py_error + real" where
  "Sensor_val vadc = Inr vadc"

text \<open>
  \<open>Sensor_T10k.val\<close> with \<open>beta = 4010.0\<close>, \<open>t0 = 298.15\<close>, \<open>v0 = 1.0\<close> and
  \<open>vref = v0 * exp(-beta / t0)\<close>. The division raises when the logarithm is zero.
\<close>

definition T10k_vref :: real where
  "T10k_vref = 1 * exp (- 4010 / 298.15)"

definition Sensor_T10k_val :: "real \<Rightarrow> py_error + real" where
  "Sensor_T10k_val vadc =
     (let v = (if vadc \<le> 0 then 1 / 1000000 else vadc);
          l = ln (v / T10k_vref)
      in if l = 0 then Inl (ZeroDivisionError ''float division by zero'')
         else Inr (4010 / l - 273.15))"

text \<open>
  \<open>Sensor_PT100.val\<close> with \<open>A = 3.9083e-3\<close>, \<open>B = -5.775e-7\<close>, \<open>vref = 1.0\<close>,
  \<open>Ec = 0.997663\<close>, \<open>Eo = 1e-3\<close>. \<open>math.sqrt\<close> raises on a negative argument.
\<close>

definition Sensor_PT100_val :: "real \<Rightarrow> py_error + real" where
  "Sensor_PT100_val vadc =
     (let A = 39083 / 10000000; B = - (5775 / 10000000000); vref = 1;
          Ec = 997663 / 1000000; Eo = 1 / 1000;
          vc = (vadc - Eo) * Ec;
          d = A\<^sup>2 - (4 * B * (1 - vc / vref))
      in if d < 0 then Inl (ValueError ''math domain error'')
         else Inr ((- A + sqrt d) / (2 * B)))"

text \<open>
  \<open>Sensor_O2_Me2_O2.val\<close> with \<open>ref_o2 = 20.9\<close>, \<open>offset = 1.151e-3\<close>,
  \<open>baseline = 1.29\<close>.
\<close>

definition Sensor_O2_Me2_O2_val :: "real \<Rightarrow> py_error + real" where
  "Sensor_O2_Me2_O2_val vadc =
     Inr (((vadc - 1151 / 1000000) * 20.9) / (1.29 - 1151 / 1000000))"

definition mk_sensor ::
  "(real \<Rightarrow> py_error + real) \<Rightarrow> string \<Rightarrow> string \<Rightarrow> string \<Rightarrow> string \<Rightarrow> nat \<Rightarrow> sensor" where
  "mk_sensor v n p l u f = \<lparr>name = n, plot = p, label = l, unit = u, fmt = f, val = v\<rparr>"

definition create_sensors :: "sensor list" where
  "create_sensors =
     [mk_sensor Sensor_val ''ch0'' ''main'' ''CH4'' ''V'' 6,
      mk_sensor Sensor_T10k_val ''ch1'' ''temp'' ''CH4_TEMP'' ''C'' 2,
      mk_sensor Sensor_O2_Me2_O2_val ''ch2'' ''prct'' ''O2'' ''%'' 2,
      mk_sensor Sensor_val ''ch3'' ''main'' ''H2'' ''V'' 6,
      mk_sensor Sensor_T10k_val ''ch4'' ''temp'' ''HOTSIDE_TEMP'' ''C'' 2,
      mk_sensor Sensor_PT100_val ''ch5'' ''temp'' ''PT100'' ''C'' 2,
      mk_sensor Sensor_T10k_val ''ch6'' ''temp'' ''COLDSIDE_TEMP'' ''C'' 2,
      mk_sensor Sensor_T10k_val ''ch7'' ''temp'' ''HOTPLATE_TEMP'' ''C'' 2,
      mk_sensor Sensor_val ''temp'' ''temp'' ''AHT10_TEMP'' ''C'' 2,
      mk_sensor Sensor_val ''rhum'' ''prct'' ''AHT10_RHUM'' ''%'' 2,
      mk_sensor Sensor_val ''pwm1'' ''prct'' ''SERVO'' ''%'' 2,
      mk_sensor Sensor_val ''pwm2'' ''prct'' ''CH4_PID'' ''%'' 2,
      mk_sensor Sensor_val ''pwm3'' ''prct'' ''COLDPLATE_PID'' ''%'' 2,
      mk_sensor Sensor_val ''pwm4'' ''prct'' ''HOTPLATE_PID'' ''%'' 2]"

text \<open>\<open>Sensor.labels()\<close> and \<open>tuple(Sensor.labels()).index(x)\<close>\<close>

definition labels :: "sensor list \<Rightarrow> string list" where
  "labels sens = map label sens"

fun index_of :: "'a list \<Rightarrow> 'a \<Rightarrow> nat" where
  "index_of [] x = 0"
| "index_of (y # ys) x = (if x = y then 0 else Suc (index_of ys x))"

text \<open>\<open>Sensor.format\<close>: \<open>(self._fmt + '{}').format(self.val(vadc), self._unit)\<close>\<close>

definition sensor_format :: "runtime \<Rightarrow> sensor \<Rightarrow> real \<Rightarrow> py_error + string" where
  "sensor_format rt s vadc =
     (case val s vadc of
        Inl e \<Rightarrow> Inl e
      | Inr v \<Rightarrow> Inr (fmt_fixed rt (fmt s) v @ unit s))"

text \<open>
  \<open>tuple((s.format(record[i]) for i, s in enumerate(sensors)))\<close>: the generator stops at
  the first exception; \<open>record[i]\<close> raises when the record is shorter than the catalog.
\<close>

fun format_fields :: "runtime \<Rightarrow> sensor list \<Rightarrow> nat \<Rightarrow> real list \<Rightarrow> py_error + string list" where
  "format_fields rt [] i record = Inr []"
| "format_fields rt (s # ss) i record =
     (if length record \<le> i then Inl (IndexError ''list index out of range'')
      else (case sensor_format rt s (record ! i) of
              Inl e \<Rightarrow> Inl e
            | Inr x \<Rightarrow> (case format_fields rt ss (Suc i) record of
                          Inl e \<Rightarrow> Inl e
                        | Inr xs \<Rightarrow> Inr (x # xs))))"

text \<open>
  The line of one sample, \<open>f'{wavetime:.6f}s,' + ','.join(strings)\<close>: the expression the
  supervisor loop streams to the subscribers and the handlers use for a stored record.
\<close>

definition format_record :: "runtime \<Rightarrow> sensor list \<Rightarrow> real \<Rightarrow> real list \<Rightarrow> py_error + string" where
  "format_record rt sens wavetime record =
     (case format_fields rt sens 0 record of
        Inl e \<Rightarrow> Inl e
      | Inr strings \<Rightarrow> Inr (fmt_fixed rt 6 wavetime @ ''s,'' @ join_comma strings))"


section \<open>The query engine\<close>

text \<open>\<open>np.median\<close>: the middle of the sorted values, or the mean of the two middle ones.\<close>

definition np_median :: "real list \<Rightarrow> py_error + real" where
  "np_median X =
     (if X = [] then Inl NanResult
      else (let s = sort X; n = length s
            in if odd n then Inr (s ! (n div 2))
               else Inr ((s ! (n div 2 - 1) + s ! (n div 2)) / 2)))"

text \<open>\<open>tuple(t[s] for t in rows)\<close>\<close>

fun column :: "nat \<Rightarrow> real list list \<Rightarrow> py_error + real list" where
  "column s [] = Inr []"
| "column s (t # ts) =
     (if length t \<le> s then Inl (IndexError ''list index out of range'')
      else (case column s ts of
              Inl e \<Rightarrow> Inl e
            | Inr xs \<Rightarrow> Inr (t ! s # xs)))"

text \<open>\<open>tuple(sensor.val(t[s]) for t in rows)\<close>\<close>

fun convert_column :: "(real \<Rightarrow> py_error + real) \<Rightarrow> nat \<Rightarrow> real list list \<Rightarrow> py_error + real list" where
  "convert_column f s [] = Inr []"
| "convert_column f s (t # ts) =
     (if length t \<le> s then Inl (IndexError ''list index out of range'')
      else (case f (t ! s) of
              Inl e \<Rightarrow> Inl e
            | Inr v \<Rightarrow> (case convert_column f s ts of
                          Inl e \<Rightarrow> Inl e
                        | Inr vs \<Rightarrow> Inr (v # vs))))"

text \<open>\<open>bufidx[i][1]\<close>\<close>

definition ring_time :: "real list list \<Rightarrow> int \<Rightarrow> py_error + real" where
  "ring_time b i = (case py_get b i of Inl e \<Rightarrow> Inl e | Inr ent \<Rightarrow> py_get ent 1)"

text \<open>
  \<open>median_avg(s, p1, period)\<close>. The call of \<open>find_time_index\<close> can shorten \<open>bufidx\<close>, so the
  ring is returned with the result.
\<close>

definition median_avg :: "nat \<Rightarrow> int \<Rightarrow> real \<Rightarrow> sample_ring \<Rightarrow> (py_error + real) \<times> sample_ring" where
  "median_avg s p1 period r =
     (case ring_time (bufidx r) p1 of
        Inl e \<Rightarrow> (Inl e, r)
      | Inr tp \<Rightarrow>
          (case find_time_index (tp - period) (bufidx r) of
             (q, b') \<Rightarrow>
               (let r' = r\<lparr>bufidx := b'\<rparr>;
                    p0 = (if q = - 1 then 0 else q)
                in (case column s (py_slice (bufadc r') p0 (p1 + 1)) of
                      Inl e \<Rightarrow> (Inl e, r')
                    | Inr X \<Rightarrow> (np_median X, r')))))"

section \<open>The supervisor loop\<close>

text \<open>
  The body of \<open>while not data_Q.empty()\<close> in \<open>main\<close> for one sample
  \<open>(recno, wavetime, *record)\<close>. \<open>main_append\<close> is the part under \<open>buf_lock\<close>: the sample is
  appended and then a single \<open>if\<close> removes the oldest sample. An exception leaves the
  appended sample in place and is printed.
\<close>

definition main_append :: "real \<Rightarrow> real \<times> real \<times> real list \<Rightarrow> sample_ring \<Rightarrow> py_error option \<times> sample_ring" where
  "main_append bufsize smp r =
     (case smp of (recno, wavetime, record) \<Rightarrow>
        (let bi = bufidx r @ [[recno, wavetime]];
             ba = bufadc r @ [record]
         in (case py_get (hd bi) 1 of
               Inl e \<Rightarrow> (Some e, \<lparr>bufidx = bi, bufadc = ba\<rparr>)
             | Inr t_first \<Rightarrow>
                 if bufsize < last bi ! 1 - t_first
                 then (None, \<lparr>bufidx = tl bi, bufadc = tl ba\<rparr>)
                 else (None, \<lparr>bufidx = bi, bufadc = ba\<rparr>))))"

record supervisor =
  ring :: sample_ring
  data_queues :: "string list list"
  printed :: "string list"

definition main_handle_sample ::
  "runtime \<Rightarrow> sensor list \<Rightarrow> real \<Rightarrow> real \<times> real \<times> real list \<Rightarrow> supervisor \<Rightarrow> supervisor" where
  "main_handle_sample rt sensors bufsize smp st =
     (case main_append bufsize smp (ring st) of
        (Some e, r') \<Rightarrow> st\<lparr>ring := r', printed := printed st @ [''Exception: '' @ exc_str e]\<rparr>
      | (None, r') \<Rightarrow>
          (case format_record rt sensors (fst (snd smp)) (snd (snd smp)) of
             Inl e \<Rightarrow> st\<lparr>ring := r', printed := printed st @ [''Exception: '' @ exc_str e]\<rparr>
           | Inr outrec \<Rightarrow> st\<lparr>ring := r', data_queues := map (\<lambda>q. q @ [outrec]) (data_queues st)\<rparr>))"

text \<open>The ring after a sequence of samples, starting from \<open>r\<close>.\<close>

fun main_appends :: "real \<Rightarrow> (real \<times> real \<times> real list) list \<Rightarrow> sample_ring \<Rightarrow> sample_ring" where
  "main_appends bufsize [] r = r"
| "main_appends bufsize (smp # smps) r = main_appends bufsize smps (snd (main_append bufsize smp r))"

text \<open>\<open>t_last - t_first\<close> of a ring.\<close>

definition span :: "sample_ring \<Rightarrow> real" where
  "span r = last (bufidx r) ! 1 - hd (bufidx r) ! 1"

text \<open>
  The invariant of the ring the supervisor builds: one index entry \<open>[recno, wavetime]\<close>
  per record.
\<close>

definition ring_inv :: "sample_ring \<Rightarrow> bool" where
  "ring_inv r = (length (bufadc r) = length (bufidx r) \<and> (\<forall>e \<in> set (bufidx r). length e = 2))"

section \<open>The DAQ worker: time reset\<close>

text \<open>
  The branch of \<open>DAQ_process\<close> for a request containing \<open>:CMD:TIME:RST\<close>: the origin is
  rebased to the clock and the reply is \<open>f'{wavetime}'\<close>, the timestamp of the sample just
  read.
\<close>

record daq_worker =
  tstart_ns :: int
  wavetime :: real

definition DAQ_time_rst :: "runtime \<Rightarrow> int \<Rightarrow> daq_worker \<Rightarrow> daq_worker \<times> string" where
  "DAQ_time_rst rt now_ns w = (w\<lparr>tstart_ns := now_ns\<rparr>, fmt_repr rt (wavetime w))"

section \<open>The command service\<close>

subsection \<open>Accepting a connection\<close>

record options =
  verbose :: bool
  silent :: bool

record cmd_server =
  free_Qn :: "nat list"
  daq_cmd_clients :: "nat list"
  cmd_Q :: "(string \<times> nat \<times> real) list"
  msg_Q :: "string list"
  err_Q :: "string list"
  sent :: "string list"
  closed :: bool

text \<open>\<open>f'{n}'\<close> for a queue number.\<close>

function show_nat :: "nat \<Rightarrow> string" where
  "show_nat n =
     (if n < 10 then [''0123456789'' ! n]
      else show_nat (n div 10) @ [''0123456789'' ! (n mod 10)])"
  by pat_completeness auto
termination
  by (relation "measure id") auto

declare show_nat.simps [simp del]

definition put_if :: "bool \<Rightarrow> string \<Rightarrow> string list \<Rightarrow> string list" where
  "put_if c m q = (if c then q @ [m] else q)"

text \<open>
  \<open>cmd_handler\<close>. \<open>serve resp_Qn\<close> is the \<open>while not evt_terminate.is_set()\<close> loop of a
  connection that owns response queue \<open>resp_Qn\<close>, run until it leaves; its branches for
  \<open>:CMD:TIME:RST\<close>, \<open>:CMD:READ?\<close> and \<open>:CMD:PEAK?\<close> are modelled below. \<open>free_Qn.pop()\<close>
  takes the last element of the free list.
\<close>

definition cmd_handler ::
  "options \<Rightarrow> (nat \<Rightarrow> cmd_server \<Rightarrow> cmd_server) \<Rightarrow> nat \<Rightarrow> string \<Rightarrow> cmd_server \<Rightarrow> cmd_server" where
  "cmd_handler arg serve client_socket addr st =
     (let st1 =
        (if free_Qn st \<noteq> [] then
           (let resp_Qn = last (free_Qn st);
                sa = st\<lparr>daq_cmd_clients := daq_cmd_clients st @ [client_socket],
                        free_Qn := butlast (free_Qn st),
                        msg_Q := put_if (verbose arg)
                          (''Accepted cmd connection from '' @ addr @ '', using queue ''
                             @ show_nat resp_Qn @ ''.'') (msg_Q st)\<rparr>;
                sb = serve resp_Qn sa
            in sb\<lparr>free_Qn := free_Qn sb @ [resp_Qn],
                  msg_Q := put_if (verbose arg)
                    (''CMD Handler '' @ addr @ '': releasing queue '' @ show_nat resp_Qn @ ''.'')
                    (msg_Q sb)\<rparr>)
         else st\<lparr>err_Q := put_if (\<not> silent arg)
                   (''CMD Handler '' @ addr @ '' ERROR: out of queue resources. Closing connection.'')
                   (err_Q st)\<rparr>);
          st2 = st1\<lparr>closed := True,
                    daq_cmd_clients := remove1 client_socket (daq_cmd_clients st1),
                    msg_Q := put_if (verbose arg) (''Connection with '' @ addr @ '' closed.'') (msg_Q st1)\<rparr>
      in st2\<lparr>msg_Q := put_if (verbose arg) (''CMD Handler '' @ addr @ '': thread stopped.'') (msg_Q st2)\<rparr>)"

subsection \<open>\<open>:CMD:TIME:RST\<close>\<close>

text \<open>
  \<open>for i in range(len(bufidx)): bufidx[i][1] -= toffs\<close>. An entry without a timestamp
  raises; the entries before it stay shifted.
\<close>

fun shift_times :: "real \<Rightarrow> real list list \<Rightarrow> py_error option \<times> real list list" where
  "shift_times toffs [] = (None, [])"
| "shift_times toffs (e # es) =
     (if length e < 2 then (Some (IndexError ''list index out of range''), e # es)
      else (case shift_times toffs es of
              (x, es') \<Rightarrow> (x, e[1 := e ! 1 - toffs] # es')))"

text \<open>
  The handler branch, given the text \<open>resp\<close> the worker put on the response queue. An
  exception of the loop leaves the handler: nothing is sent.
\<close>

definition cmd_time_rst ::
  "runtime \<Rightarrow> string \<Rightarrow> sample_ring \<times> string list \<Rightarrow> py_error option \<times> sample_ring \<times> string list" where
  "cmd_time_rst rt resp st =
     (case st of (r, out) \<Rightarrow>
        (let toffs = (case parse_float rt resp of Some x \<Rightarrow> x | None \<Rightarrow> 0)
         in (case shift_times toffs (bufidx r) of
               (Some e, b') \<Rightarrow> (Some e, r\<lparr>bufidx := b'\<rparr>, out)
             | (None, b') \<Rightarrow> (None, r\<lparr>bufidx := b'\<rparr>, out @ [resp]))))"

text \<open>\<open>response = f'ERR: {e}'\<close> in the \<open>except\<close> clause of a request.\<close>

definition reply_of :: "py_error + string \<Rightarrow> string" where
  "reply_of x = (case x of Inl e \<Rightarrow> ''ERR: '' @ exc_str e | Inr s \<Rightarrow> s)"

subsection \<open>\<open>:CMD:READ?\<close>\<close>

text \<open>
  The request is given by its tokens: \<open>fields[1]\<close> (absent when the request has no
  argument), the time token \<open>fields[2]\<close> and the window \<open>fields[3]\<close>, both after
  \<open>conv_float\<close>. A window is only read when a time token precedes it.
\<close>

datatype time_arg = T_MAX | T_MIN | T_VAL real

definition cmd_read_try ::
  "runtime \<Rightarrow> sensor list \<Rightarrow> string option \<Rightarrow> time_arg option \<Rightarrow> real option \<Rightarrow> sample_ring
     \<Rightarrow> (py_error + string) \<times> sample_ring" where
  "cmd_read_try rt sens fields1 targ warg r =
     (case fields1 of
        None \<Rightarrow> (Inl (IndexError ''list index out of range''), r)
      | Some f1 \<Rightarrow>
          (case (if f1 = ''ALL''
                 then (case ring_time (bufidx r) (- 1) of
                         Inl e \<Rightarrow> Inl e
                       | Inr wt \<Rightarrow>
                           (case py_get (bufadc r) (- 1) of
                              Inl e \<Rightarrow> Inl e
                            | Inr record \<Rightarrow> format_record rt sens wt record))
                 else Inr ''ERR'') of
             Inl e \<Rightarrow> (Inl e, r)
           | Inr response \<Rightarrow>
               if f1 \<in> set (labels sens) then
                 (let sns = index_of (labels sens) f1
                  in (case (case targ of
                              Some T_MAX \<Rightarrow> ring_time (bufidx r) (- 1)
                            | Some T_MIN \<Rightarrow> ring_time (bufidx r) 0
                            | Some (T_VAL x) \<Rightarrow> Inr x
                            | None \<Rightarrow> ring_time (bufidx r) (- 1)) of
                        Inl e \<Rightarrow> (Inl e, r)
                      | Inr t \<Rightarrow>
                          (case ring_time (bufidx r) 0 of
                             Inl e \<Rightarrow> (Inl e, r)
                           | Inr tfirst \<Rightarrow>
                               if \<not> tfirst \<le> t then (Inr response, r)
                               else
                                 (case ring_time (bufidx r) (- 1) of
                                    Inl e \<Rightarrow> (Inl e, r)
                                  | Inr tlast \<Rightarrow>
                                      if \<not> t \<le> tlast then (Inr response, r)
                                      else
                                        (case find_time_index t (bufidx r) of
                                           (pos, b') \<Rightarrow>
                                             (let r' = r\<lparr>bufidx := b'\<rparr>
                                              in if targ \<noteq> None \<and> warg \<noteq> None then
                                                   (case median_avg sns pos (the warg) r' of
                                                      (Inl e, r2) \<Rightarrow> (Inl e, r2)
                                                    | (Inr m, r2) \<Rightarrow> (sensor_format rt (sens ! sns) m, r2))
                                                 else
                                                   (case py_get (bufadc r') pos of
                                                      Inl e \<Rightarrow> (Inl e, r')
                                                    | Inr record \<Rightarrow>
                                                        (case py_get record (int sns) of
                                                           Inl e \<Rightarrow> (Inl e, r')
                                                         | Inr v \<Rightarrow> (sensor_format rt (sens ! sns) v, r')))))))))
               else (Inr response, r)))"

definition cmd_read ::
  "runtime \<Rightarrow> sensor list \<Rightarrow> string option \<Rightarrow> time_arg option \<Rightarrow> real option
     \<Rightarrow> sample_ring \<times> string list \<Rightarrow> sample_ring \<times> string list" where
  "cmd_read rt sens fields1 targ warg st =
     (case st of (r, out) \<Rightarrow>
        (case cmd_read_try rt sens fields1 targ warg r of
           (x, r') \<Rightarrow> (r', out @ [reply_of x])))"


subsection \<open>\<open>:CMD:PEAK?\<close>\<close>




subsection \<open>\<open>:CMD:BASE:DRIFT?\<close>\<close>



section \<open>The data service: \<open>:DATA:READ?\<close>\<close>

text \<open>
  \<open>args\<close> are the time tokens after \<open>conv_float\<close>. \<open>data_read_select\<close> is the list the
  \<open>for idx, record in zip(bufidx[p0:p1], bufadc[p0:p1])\<close> loop runs over.
\<close>

definition data_read_select :: "real list \<Rightarrow> sample_ring \<Rightarrow> (real list \<times> real list) list \<times> sample_ring" where
  "data_read_select args r =
     (let p1a = int (length (bufidx r)); p0a = p1a - 1
      in (case (if 0 < length args
                then (case find_time_index (args ! 0) (bufidx r) of (i, b') \<Rightarrow> (i, i + 1, b'))
                else (p0a, p1a, bufidx r)) of
            (p0, p1b, b1) \<Rightarrow>
              (case (if 1 < length args
                     then (case find_time_index (args ! 1) b1 of (j, b') \<Rightarrow> (j + 1, b'))
                     else (p1b, b1)) of
                 (p1, b2) \<Rightarrow>
                   (zip (py_slice b2 p0 p1) (py_slice (bufadc r) p0 p1), r\<lparr>bufidx := b2\<rparr>))))"

text \<open>The loop body: the line of the live stream with a newline appended.\<close>

definition data_line :: "runtime \<Rightarrow> sensor list \<Rightarrow> real list \<times> real list \<Rightarrow> py_error + string" where
  "data_line rt sens ir =
     (case py_get (fst ir) 1 of
        Inl e \<Rightarrow> Inl e
      | Inr wt \<Rightarrow>
          (case format_record rt sens wt (snd ir) of
             Inl e \<Rightarrow> Inl e
           | Inr l \<Rightarrow> Inr (l @ [CHR 0x0A])))"

fun collect_lines :: "runtime \<Rightarrow> sensor list \<Rightarrow> (real list \<times> real list) list \<Rightarrow> py_error + string list" where
  "collect_lines rt sens [] = Inr []"
| "collect_lines rt sens (ir # irs) =
     (case data_line rt sens ir of
        Inl e \<Rightarrow> Inl e
      | Inr l \<Rightarrow> (case collect_lines rt sens irs of
                    Inl e \<Rightarrow> Inl e
                  | Inr ls \<Rightarrow> Inr (l # ls)))"

text \<open>
  All lines are collected before the first is sent, so an exception sends only
  \<open>ERR: ...\<close>.
\<close>

definition data_read ::
  "runtime \<Rightarrow> sensor list \<Rightarrow> real list \<Rightarrow> sample_ring \<times> string list \<Rightarrow> sample_ring \<times> string list" where
  "data_read rt sens args st =
     (case st of (r, out) \<Rightarrow>
        (case data_read_select args r of
           (sel, r') \<Rightarrow>
             (case collect_lines rt sens sel of
                Inl e \<Rightarrow> (r', out @ [''ERR: '' @ exc_str e])
              | Inr databuf \<Rightarrow> (r', out @ databuf @ [''OK'']))))"

section \<open>The process controller: calibration curves\<close>

text \<open>
  \<open>compute_calib_curves\<close> and \<open>calc_ppm\<close> of \<open>hmc_master.py\<close>. \<open>np.polyfit\<close> is a parameter;
  \<open>np.polyval\<close> is Horner's rule, highest coefficient first. The three curves are global
  variables, unset (\<open>None\<close>) until the first successful fit.
\<close>

record calib_curves =
  z_cell_adc2h2 :: "real list option"
  z_tgs_h2_2adc :: "real list option"
  z_tgs_adc2ch4 :: "real list option"

definition dict_get :: "(string \<rightharpoonup> real) \<Rightarrow> string \<Rightarrow> py_error + real" where
  "dict_get cal k = (case cal k of None \<Rightarrow> Inl (KeyError ([CHR 0x27] @ k @ [CHR 0x27])) | Some v \<Rightarrow> Inr v)"

text \<open>The three lists of raw readings, with the keys read in the order of the source.\<close>

definition calib_points :: "(string \<rightharpoonup> real) \<Rightarrow> py_error + real list \<times> real list \<times> real list" where
  "calib_points cal =
     (case dict_get cal ''cell_h2_50ppm'' of Inl e \<Rightarrow> Inl e | Inr c50 \<Rightarrow>
      case dict_get cal ''cell_h2_100ppm'' of Inl e \<Rightarrow> Inl e | Inr c100 \<Rightarrow>
      case dict_get cal ''tgs_h2_50ppm'' of Inl e \<Rightarrow> Inl e | Inr h50 \<Rightarrow>
      case dict_get cal ''tgs_comp'' of Inl e \<Rightarrow> Inl e | Inr tcomp \<Rightarrow>
      case dict_get cal ''tgs_h2_100ppm'' of Inl e \<Rightarrow> Inl e | Inr h100 \<Rightarrow>
      case dict_get cal ''tgs_ch4_50ppm'' of Inl e \<Rightarrow> Inl e | Inr m50 \<Rightarrow>
      case dict_get cal ''tgs_ch4_100ppm'' of Inl e \<Rightarrow> Inl e | Inr m100 \<Rightarrow>
        Inr ([0, c50, c100], [0, h50 + tcomp, h100 + tcomp], [0, m50 + tcomp, m100 + tcomp]))"

definition compute_calib_curves ::
  "(real list \<Rightarrow> real list \<Rightarrow> nat \<Rightarrow> real list) \<Rightarrow> (string \<rightharpoonup> real) \<Rightarrow> calib_curves
     \<Rightarrow> calib_curves \<times> string" where
  "compute_calib_curves polyfit cal z =
     (case calib_points cal of
        Inl e \<Rightarrow> (z, ''Exception in compute_calib_curves(): '' @ exc_str e @ ''.'')
      | Inr (cell_adc_h2, tgs_adc_h2, tgs_adc_ch4) \<Rightarrow>
          (\<lparr>z_cell_adc2h2 = Some (polyfit cell_adc_h2 [0, 50, 100] 1),
            z_tgs_h2_2adc = Some (polyfit [0, 50, 100] tgs_adc_h2 2),
            z_tgs_adc2ch4 = Some (polyfit tgs_adc_ch4 [0, 50, 100] 2)\<rparr>,
           ''Calibration curves computed.''))"

definition polyval :: "real list \<Rightarrow> real list \<Rightarrow> real list" where
  "polyval p xs = map (\<lambda>x. foldl (\<lambda>y pv. y * x + pv) 0 p) xs"

definition global_get :: "string \<Rightarrow> 'a option \<Rightarrow> py_error + 'a" where
  "global_get n g =
     (case g of
        None \<Rightarrow> Inl (NameError (''name '' @ [CHR 0x27] @ n @ [CHR 0x27] @ '' is not defined''))
      | Some v \<Rightarrow> Inr v)"

definition calc_ppm :: "calib_curves \<Rightarrow> real \<Rightarrow> real \<Rightarrow> py_error + real \<times> real" where
  "calc_ppm z h2adc ch4adc =
     (case global_get ''z_cell_adc2h2'' (z_cell_adc2h2 z) of Inl e \<Rightarrow> Inl e | Inr zc \<Rightarrow>
        (let h2ppm = polyval zc [h2adc]
         in (case global_get ''z_tgs_h2_2adc'' (z_tgs_h2_2adc z) of Inl e \<Rightarrow> Inl e | Inr zt \<Rightarrow>
               (let h2adj = polyval zt h2ppm;
                    tgs_adjusted = (ch4adc + 20 / 1000) - h2adj ! 0
                in (case global_get ''z_tgs_adc2ch4'' (z_tgs_adc2ch4 z) of Inl e \<Rightarrow> Inl e | Inr za \<Rightarrow>
                      (let ch4ppm = polyval za [tgs_adjusted]
                       in Inr (h2ppm ! 0, ch4ppm ! 0)))))))"

text \<open>
  The value of a polynomial as the specification reads \<open>eval\<close>: the sum of the coefficients
  times the powers of \<open>x\<close>, highest degree first.
\<close>

definition poly_eval :: "real list \<Rightarrow> real \<Rightarrow> real" where
  "poly_eval p x = (\<Sum>i < length p. p ! i * x ^ (length p - 1 - i))"


section \<open>Specification-side notions\<close>

text \<open>The timestamps of the ring, oldest first.\<close>

definition times :: "real list list \<Rightarrow> real list" where
  "times b = map (\<lambda>e. e ! 1) b"

text \<open>
  The index the specification gives for a time \<open>t\<close>: the smallest \<open>i\<close> with
  \<open>ring[i].t \<ge> t\<close>, and the last index when there is none.
\<close>

definition index_at :: "real list list \<Rightarrow> real \<Rightarrow> nat" where
  "index_at b t = min (length (takeWhile (\<lambda>e. e ! 1 < t) b)) (length b - 1)"

section \<open>Examples\<close>

text \<open>A small index list, used for evaluating the model on concrete input.\<close>

definition ex_bufidx :: "real list list" where
  "ex_bufidx = [[0, 0], [1, 1], [2, 2], [3, 3]]"

text \<open>
  A concrete runtime for the examples: decimal formatting rounded half up, six decimals in
  place of Python's shortest representation of a float, a parser of plain decimal
  literals, and a peak finder that raises on a distance below 1, as the library does, and
  otherwise returns the strict local maxima of at least the given height without thinning
  them by distance. The theorems below are proved for every runtime; this one only serves
  to evaluate the model.
\<close>

definition show_fixed :: "nat \<Rightarrow> real \<Rightarrow> string" where
  "show_fixed d x =
     (let m = nat \<lfloor>\<bar>x\<bar> * 10 ^ d + 1 / 2\<rfloor>;
          frac = show_nat (m mod 10 ^ d)
      in (if x < 0 then ''-'' else []) @ show_nat (m div 10 ^ d) @
         (if d = 0 then [] else ''.'' @ replicate (d - length frac) (CHR ''0'') @ frac))"

definition digit_of :: "char \<Rightarrow> nat option" where
  "digit_of c =
     (if c \<in> set ''0123456789'' then Some (index_of ''0123456789'' c) else None)"

fun digits_val :: "nat \<Rightarrow> string \<Rightarrow> nat option" where
  "digits_val acc [] = Some acc"
| "digits_val acc (c # cs) =
     (case digit_of c of None \<Rightarrow> None | Some d \<Rightarrow> digits_val (10 * acc + d) cs)"

definition parse_decimal :: "string \<Rightarrow> real option" where
  "parse_decimal s =
     (let neg = (s \<noteq> [] \<and> hd s = CHR ''-'');
          u = (if neg then tl s else s);
          ip = takeWhile (\<lambda>c. c \<noteq> CHR ''.'') u;
          fp = drop (Suc (length ip)) u
      in if ip = [] then None
         else (case digits_val 0 ip of
                 None \<Rightarrow> None
               | Some a \<Rightarrow>
                   (case digits_val 0 fp of
                      None \<Rightarrow> None
                    | Some b \<Rightarrow>
                        Some ((if neg then - 1 else 1) * (real a + real b / 10 ^ length fp)))))"

definition simple_peaks :: "real list \<Rightarrow> real \<Rightarrow> real \<Rightarrow> py_error + nat list" where
  "simple_peaks y h distance =
     (if distance < 1 then Inl (ValueError ''`distance` must be greater or equal to 1'')
      else Inr (filter (\<lambda>i. 0 < i \<and> Suc i < length y \<and> y ! (i - 1) < y ! i \<and> y ! Suc i < y ! i
                              \<and> h \<le> y ! i) [0..<length y]))"

definition ex_runtime :: runtime where
  "ex_runtime = \<lparr>fmt_fixed = show_fixed, fmt_repr = show_fixed 6,
                  parse_float = parse_decimal, find_peaks = simple_peaks\<rparr>"

text \<open>
  A record of the fourteen channels of the catalog with reading \<open>h\<close> on \<open>H2\<close> and \<open>p\<close>
  on \<open>PT100\<close>; the other readings are 1, and 1.29 on \<open>O2\<close> (20.9 percent). \<open>ex_pt100\<close>
  is the \<open>PT100\<close> reading of 0 degrees. The ring has four such records at the times 0
  to 3.
\<close>

definition ex_record :: "real \<Rightarrow> real \<Rightarrow> real list" where
  "ex_record h p = [1, 1, 1.29, h, 1, p, 1, 1, 1, 1, 1, 1, 1, 1]"

definition ex_pt100 :: real where
  "ex_pt100 = 1 / 1000 + 1000000 / 997663"

definition ex_ring :: sample_ring where
  "ex_ring = \<lparr>bufidx = ex_bufidx,
               bufadc = [ex_record (1 / 10) ex_pt100, ex_record (9 / 10) ex_pt100,
                         ex_record (1 / 5) ex_pt100, ex_record (1 / 10) ex_pt100]\<rparr>"

text \<open>
  A command server whose five response queues are all taken, and the options of a run
  without \<open>--verbose\<close> and \<open>--silent\<close>.
\<close>

definition ex_full_server :: cmd_server where
  "ex_full_server = \<lparr>free_Qn = [], daq_cmd_clients = [1, 2, 3, 4, 5], cmd_Q = [],
                      msg_Q = [], err_Q = [], sent = [], closed = False\<rparr>"

definition ex_options :: options where
  "ex_options = \<lparr>verbose = False, silent = False\<rparr>"

text \<open>
  A fit in exact arithmetic for three points, in place of \<open>np.polyfit\<close> in the examples:
  the least-squares line for degree 1 and the interpolating parabola otherwise.
\<close>

definition ex_polyfit :: "real list \<Rightarrow> real list \<Rightarrow> nat \<Rightarrow> real list" where
  "ex_polyfit xs ys deg =
     (if deg = 1 then
        (let n = real (length xs); sx = sum_list xs; sy = sum_list ys;
             sxy = sum_list (map2 (*) xs ys); sxx = sum_list (map (\<lambda>x. x * x) xs);
             m = (n * sxy - sx * sy) / (n * sxx - sx * sx)
         in [m, (sy - m * sx) / n])
      else
        (let x0 = xs ! 0; x1 = xs ! 1; x2 = xs ! 2;
             l0 = ys ! 0 / ((x0 - x1) * (x0 - x2));
             l1 = ys ! 1 / ((x1 - x0) * (x1 - x2));
             l2 = ys ! 2 / ((x2 - x0) * (x2 - x1))
         in [l0 + l1 + l2,
             - (l0 * (x1 + x2) + l1 * (x0 + x2) + l2 * (x0 + x1)),
             l0 * x1 * x2 + l1 * x0 * x2 + l2 * x0 * x1]))"

text \<open>A calibration dictionary with all seven keys.\<close>

definition ex_calib :: "string \<rightharpoonup> real" where
  "ex_calib = [''tgs_comp'' \<mapsto> 0, ''cell_h2_100ppm'' \<mapsto> 2, ''cell_h2_50ppm'' \<mapsto> 1,
               ''tgs_h2_100ppm'' \<mapsto> 2, ''tgs_h2_50ppm'' \<mapsto> 1,
               ''tgs_ch4_100ppm'' \<mapsto> 2, ''tgs_ch4_50ppm'' \<mapsto> 1]"

definition no_curves :: calib_curves where
  "no_curves = \<lparr>z_cell_adc2h2 = None, z_tgs_h2_2adc = None, z_tgs_adc2ch4 = None\<rparr>"

text \<open>
  The lines of the four records of \<open>ex_ring\<close> as the example runtime prints them, and a
  ring whose only record has a \<open>PT100\<close> reading of 10 volts.
\<close>

definition ex_line :: "string \<Rightarrow> string \<Rightarrow> string" where
  "ex_line t h = t @ ''s,1.000000V,25.00C,20.90%,'' @ h @
     ''V,25.00C,0.00C,25.00C,25.00C,1.00C,1.00%,1.00%,1.00%,1.00%,1.00%''"

definition ex_lines :: "string list" where
  "ex_lines = [ex_line ''0.000000'' ''0.100000'', ex_line ''1.000000'' ''0.900000'',
               ex_line ''2.000000'' ''0.200000'', ex_line ''3.000000'' ''0.100000'']"

definition ex_hot_ring :: sample_ring where
  "ex_hot_ring = \<lparr>bufidx = [[0, 0]], bufadc = [ex_record (1 / 10) 10]\<rparr>"

text \<open>A ring whose last two records carry the same timestamp.\<close>

definition ex_twin_ring :: sample_ring where
  "ex_twin_ring = \<lparr>bufidx = [[0, 0], [1, 1], [2, 1]],
                    bufadc = [ex_record (1 / 10) ex_pt100, ex_record (9 / 10) ex_pt100,
                              ex_record (1 / 5) ex_pt100]\<rparr>"

section \<open>Specification-side notions of the range dump\<close>

text \<open>
  The positions of the ring between the index of \<open>t0\<close> and the index of \<open>t1\<close>, both
  included.
\<close>

definition index_range :: "real list list \<Rightarrow> real \<Rightarrow> real \<Rightarrow> nat list" where
  "index_range b t0 t1 = [index_at b t0 ..< Suc (index_at b t1)]"

section \<open>Specification-side notions of the peak search\<close>




text \<open>The running maximum \<open>(pktim, pkval)\<close> over the peaks \<open>ks\<close>, the earlier one on a tie.\<close>

definition running_max :: "real list \<Rightarrow> real list \<Rightarrow> nat list \<Rightarrow> real \<times> real \<Rightarrow> real \<times> real" where
  "running_max x y ks pk = fold (\<lambda>i pk. if snd pk < y ! i then (x ! i, y ! i) else pk) ks pk"









section \<open>\<open>find_time_index\<close>: correctness\<close>

lemma well_formed_nth: "well_formed b \<Longrightarrow> i < length b \<Longrightarrow> 1 < length (b ! i)"
proof -
  assume wf: "well_formed b" and lt: "i < length b"
  from lt have "b ! i \<in> set b" by simp
  with wf have "2 \<le> length (b ! i)" unfolding well_formed_def by blast
  then show ?thesis by simp
qed

lemma pop_malformed_head_wf:
  "b \<noteq> [] \<Longrightarrow> well_formed b \<Longrightarrow> pop_malformed_head b = (None, b)"
  by (cases b) (auto simp: well_formed_def)

lemma pop_malformed_tail_wf:
  "b \<noteq> [] \<Longrightarrow> well_formed b \<Longrightarrow> pop_malformed_tail b = (None, b)"
proof -
  assume ne: "b \<noteq> []" and wf: "well_formed b"
  then have "2 \<le> length (last b)"
    using last_in_set[OF ne] by (simp add: well_formed_def)
  with ne show ?thesis
    by (subst pop_malformed_tail.simps) simp
qed

lemma pop_malformed_head_ends:
  "pop_malformed_head b = (None, b1) \<Longrightarrow> b1 \<noteq> [] \<and> 2 \<le> length (hd b1)"
  by (induction b) (auto split: if_splits)

lemma pop_malformed_tail_ends:
  "pop_malformed_tail b1 = (None, b2) \<Longrightarrow>
     b2 \<noteq> [] \<and> 2 \<le> length (last b2) \<and> hd b2 = hd b1"
proof (induction b1 rule: pop_malformed_tail.induct)
  case (1 b)
  show ?case
  proof (cases "b = []")
    case True
    with "1.prems" show ?thesis by (simp add: pop_malformed_tail.simps)
  next
    case ne: False
    show ?thesis
    proof (cases "length (last b) < 2")
      case True
      with ne "1.prems" have r: "pop_malformed_tail (butlast b) = (None, b2)"
        by (simp add: pop_malformed_tail.simps)
      from "1.IH"[OF ne True r] have ih: "b2 \<noteq> []" "2 \<le> length (last b2)" "hd b2 = hd (butlast b)"
        by auto
      from r ih(1) have "butlast b \<noteq> []"
        by (auto simp: pop_malformed_tail.simps)
      then have "hd (butlast b) = hd b"
        by (cases b) auto
      with ih show ?thesis by simp
    next
      case False
      with ne "1.prems" show ?thesis by (simp add: pop_malformed_tail.simps)
    qed
  qed
qed

lemma scan_index_wf:
  assumes "well_formed b" "n = length b" "p \<le> i" "i < n" "t \<le> tstamp b i"
  shows "\<exists>k. scan_index t p n b = (Inr (int k), b) \<and> p \<le> k \<and> k \<le> i \<and> t \<le> tstamp b k
            \<and> (\<forall>j. p \<le> j \<and> j < k \<longrightarrow> tstamp b j < t)"
  using assms
proof (induction "i - p" arbitrary: p)
  case 0
  then have "p = i" by simp
  with 0 well_formed_nth[of b i] show ?case
    by (subst scan_index.simps) (auto simp: tstamp_def)
next
  case (Suc d)
  then have lt: "p < n" "p < length b" by auto
  with Suc.prems have len: "1 < length (b ! p)"
    using well_formed_nth[of b p] by simp
  show ?case
  proof (cases "t \<le> tstamp b p")
    case True
    with lt len Suc.prems show ?thesis
      by (subst scan_index.simps) (auto simp: tstamp_def)
  next
    case False
    from Suc have "d = i - Suc p" "Suc p \<le> i" by auto
    from Suc.hyps(1)[OF this(1) Suc.prems(1,2) this(2) Suc.prems(4,5)]
    obtain k where k: "scan_index t (Suc p) n b = (Inr (int k), b)" "Suc p \<le> k" "k \<le> i"
      "t \<le> tstamp b k" "\<forall>j. Suc p \<le> j \<and> j < k \<longrightarrow> tstamp b j < t"
      by blast
    have "scan_index t p n b = scan_index t (Suc p) n b"
      using lt len False by (subst scan_index.simps) (simp add: tstamp_def)
    moreover have "\<forall>j. p \<le> j \<and> j < k \<longrightarrow> tstamp b j < t"
    proof (intro allI impI)
      fix j assume "p \<le> j \<and> j < k"
      then show "tstamp b j < t"
        using False k(5) by (cases "j = p") (auto simp: not_le)
    qed
    ultimately show ?thesis using k by auto
  qed
qed

lemma find_time_index_try_wf:
  assumes "b \<noteq> []" "well_formed b"
  shows "find_time_index_try t b =
     (if tstamp b 0 \<le> t \<and> t \<le> tstamp b (length b - 1) then scan_index t 0 (length b) b
      else if t < tstamp b 0 then (Inr 0, b)
      else (Inr (int (length b) - 1), b))"
  using assms
  by (simp add: find_time_index_try_def pop_malformed_head_wf pop_malformed_tail_wf
        tstamp_def hd_conv_nth last_conv_nth)

lemma find_time_index_inside:
  assumes "b \<noteq> []" "well_formed b" "tstamp b 0 \<le> t" "t \<le> tstamp b (length b - 1)"
  shows "\<exists>k < length b. find_time_index t b = (int k, b) \<and> t \<le> tstamp b k
            \<and> (\<forall>j < k. tstamp b j < t)"
proof -
  from assms(1) have lt: "length b - 1 < length b" by simp
  from scan_index_wf[OF assms(2) refl _ lt assms(4), of 0]
  obtain k where k: "scan_index t 0 (length b) b = (Inr (int k), b)" "k \<le> length b - 1"
      "t \<le> tstamp b k" "\<forall>j. 0 \<le> j \<and> j < k \<longrightarrow> tstamp b j < t"
    by auto
  have "find_time_index t b = (int k, b)"
    using assms k(1) by (simp add: find_time_index_def find_time_index_try_wf)
  with k lt show ?thesis by (intro exI[of _ k]) auto
qed

lemma find_time_index_below:
  assumes "b \<noteq> []" "well_formed b" "t < tstamp b 0"
  shows "find_time_index t b = (0, b)"
  using assms by (simp add: find_time_index_def find_time_index_try_wf)

lemma find_time_index_above:
  assumes "b \<noteq> []" "well_formed b" "tstamp b 0 \<le> tstamp b (length b - 1)"
    "tstamp b (length b - 1) < t"
  shows "find_time_index t b = (int (length b) - 1, b)"
  using assms by (simp add: find_time_index_def find_time_index_try_wf)

lemma sorted_times_nth:
  "sorted (times b) \<Longrightarrow> i \<le> j \<Longrightarrow> j < length b \<Longrightarrow> tstamp b i \<le> tstamp b j"
  by (simp add: times_def tstamp_def sorted_iff_nth_mono)

text \<open>
  Claim C3. On a non-empty ring whose index entries all carry a timestamp and whose
  timestamps are non-decreasing, \<open>find_time_index t\<close> leaves the ring as it is and returns:
  for \<open>t\<close> between the first and the last timestamp, the smallest index whose timestamp
  is \<open>\<ge> t\<close>; for \<open>t\<close> before the first timestamp, 0; for \<open>t\<close> after the last, the
  last index.
\<close>

theorem find_time_index_correct:
  assumes "b \<noteq> []" and "well_formed b" and "sorted (times b)"
  shows "snd (find_time_index t b) = b
     \<and> (tstamp b 0 \<le> t \<and> t \<le> tstamp b (length b - 1) \<longrightarrow>
          (\<exists>i < length b. fst (find_time_index t b) = int i \<and> t \<le> tstamp b i
              \<and> (\<forall>j < i. tstamp b j < t)))
     \<and> (t < tstamp b 0 \<longrightarrow> fst (find_time_index t b) = 0)
     \<and> (tstamp b (length b - 1) < t \<longrightarrow> fst (find_time_index t b) = int (length b) - 1)"
proof -
  have ord: "tstamp b 0 \<le> tstamp b (length b - 1)"
    using assms(1,3) by (intro sorted_times_nth) auto
  have inside: "\<exists>i < length b. find_time_index t b = (int i, b) \<and> t \<le> tstamp b i
              \<and> (\<forall>j < i. tstamp b j < t)"
    if "tstamp b 0 \<le> t" "t \<le> tstamp b (length b - 1)"
    using find_time_index_inside[OF assms(1,2) that] .
  have below: "find_time_index t b = (0, b)" if "t < tstamp b 0"
    using find_time_index_below[OF assms(1,2) that] .
  have above: "find_time_index t b = (int (length b) - 1, b)" if "tstamp b (length b - 1) < t"
    using find_time_index_above[OF assms(1,2) ord that] .
  have unchanged: "snd (find_time_index t b) = b"
  proof (cases "t < tstamp b 0")
    case True
    then show ?thesis by (simp add: below)
  next
    case nb: False
    show ?thesis
    proof (cases "tstamp b (length b - 1) < t")
      case True
      then show ?thesis by (simp add: above)
    next
      case False
      with nb inside show ?thesis by fastforce
    qed
  qed
  show ?thesis
    using unchanged inside below above by fastforce
qed

theorem find_time_index_correct_witness:
  "ex_bufidx \<noteq> [] \<and> well_formed ex_bufidx \<and> sorted (times ex_bufidx) \<and>
   find_time_index (3 / 2) ex_bufidx = (2, ex_bufidx) \<and>
   find_time_index (- 1) ex_bufidx = (0, ex_bufidx) \<and>
   find_time_index 7 ex_bufidx = (3, ex_bufidx)"
proof -
  have h: "ex_bufidx \<noteq> []" "well_formed ex_bufidx" "sorted (times ex_bufidx)"
    by (simp_all add: ex_bufidx_def well_formed_def times_def)
  have ts: "tstamp ex_bufidx 0 = 0" "tstamp ex_bufidx 3 = 3" "length ex_bufidx = 4"
    by (simp_all add: tstamp_def ex_bufidx_def)
  have a: "find_time_index (3 / 2) ex_bufidx = (2, ex_bufidx)"
    using find_time_index_correct[OF h, of "3 / 2"]
    by (simp add: find_time_index_def find_time_index_try_def pop_malformed_tail.simps
        scan_index.simps ex_bufidx_def)
  have b: "find_time_index (- 1) ex_bufidx = (0, ex_bufidx)"
    using find_time_index_correct[OF h, of "- 1"] by (simp add: ts prod_eq_iff)
  have c: "find_time_index 7 ex_bufidx = (3, ex_bufidx)"
    using find_time_index_correct[OF h, of 7] by (simp add: ts prod_eq_iff)
  from h a b c show ?thesis by simp
qed


lemma takeWhile_all: "\<forall>x \<in> set xs. P x \<Longrightarrow> takeWhile P xs = xs"
  by (induction xs) auto

lemma index_at_below:
  assumes "b \<noteq> []" "t \<le> tstamp b 0"
  shows "index_at b t = 0"
proof -
  from assms have "\<not> hd b ! 1 < t" by (simp add: tstamp_def hd_conv_nth)
  with assms(1) have "takeWhile (\<lambda>e. e ! 1 < t) b = []" by (cases b) auto
  then show ?thesis by (simp add: index_at_def)
qed

lemma index_at_above:
  assumes "b \<noteq> []" "sorted (times b)" "tstamp b (length b - 1) < t"
  shows "index_at b t = length b - 1"
proof -
  have "\<forall>e \<in> set b. e ! 1 < t"
  proof
    fix e assume "e \<in> set b"
    then obtain i where i: "i < length b" "e = b ! i" by (auto simp: in_set_conv_nth)
    then have "tstamp b i \<le> tstamp b (length b - 1)"
      using assms(2) by (intro sorted_times_nth) auto
    with assms(3) i show "e ! 1 < t" by (simp add: tstamp_def)
  qed
  then have "length (takeWhile (\<lambda>e. e ! 1 < t) b) = length b"
    by (simp only: takeWhile_all)
  then show ?thesis by (simp add: index_at_def)
qed

lemma index_at_eqI:
  assumes "k < length b" "t \<le> tstamp b k" "\<forall>j < k. tstamp b j < t"
  shows "index_at b t = k"
proof -
  have "takeWhile (\<lambda>e. e ! 1 < t) b = take k b"
  proof (rule takeWhile_eq_take_P_nth)
    fix i assume "i < k" "i < length b"
    with assms(3) show "b ! i ! 1 < t" by (simp add: tstamp_def)
  next
    assume "k < length b"
    with assms(2) show "\<not> b ! k ! 1 < t" by (simp add: tstamp_def)
  qed
  then have "length (takeWhile (\<lambda>e. e ! 1 < t) b) = k"
    using assms(1) by simp
  with assms(1) show ?thesis by (simp add: index_at_def)
qed

lemma find_time_index_index_at:
  assumes "b \<noteq> []" "well_formed b" "sorted (times b)"
  shows "find_time_index t b = (int (index_at b t), b)"
proof -
  have ord: "tstamp b 0 \<le> tstamp b (length b - 1)"
    using assms(1,3) by (intro sorted_times_nth) auto
  consider (below) "t < tstamp b 0" | (above) "tstamp b (length b - 1) < t"
    | (inside) "tstamp b 0 \<le> t" "t \<le> tstamp b (length b - 1)"
    by linarith
  then show ?thesis
  proof cases
    case below
    then have "t \<le> tstamp b 0" by simp
    with assms(1) have "index_at b t = 0" by (rule index_at_below)
    then show ?thesis
      using find_time_index_below[OF assms(1,2) below] by simp
  next
    case above
    have ia: "index_at b t = length b - 1"
      using assms(1,3) above by (rule index_at_above)
    have "int (length b) - 1 = int (length b - 1)" using assms(1) by (cases b) auto
    then have "find_time_index t b = (int (length b - 1), b)"
      using find_time_index_above[OF assms(1,2) ord above] by (simp only:)
    then show ?thesis by (simp only: ia)
  next
    case inside
    from find_time_index_inside[OF assms(1,2) inside]
    obtain k where k: "k < length b" "find_time_index t b = (int k, b)" "t \<le> tstamp b k"
      "\<forall>j < k. tstamp b j < t" by auto
    have "index_at b t = k" using k(1,3,4) by (rule index_at_eqI)
    with k(2) show ?thesis by (simp only:)
  qed
qed

section \<open>Evaluating the conversions and the example runtime\<close>

lemma T10k_val_one: "Sensor_T10k_val 1 = Inr 25"
proof -
  have v: "(if (1 :: real) \<le> 0 then 1 / 1000000 else 1) = 1" by simp
  have l: "ln (1 / T10k_vref) = 4010 / 298.15"
    by (simp add: T10k_vref_def ln_div)
  show ?thesis
    unfolding Sensor_T10k_val_def Let_def v l by simp
qed

lemma PT100_val_zero: "Sensor_PT100_val ex_pt100 = Inr 0"
proof -
  have "(ex_pt100 - 1 / 1000) * (997663 / 1000000) = 1" by (simp add: ex_pt100_def)
  then show ?thesis by (simp add: Sensor_PT100_val_def Let_def)
qed

lemma PT100_val_ten: "Sensor_PT100_val 10 = Inl (ValueError ''math domain error'')"
  by (simp add: Sensor_PT100_val_def Let_def power2_eq_square)

lemma O2_val_base: "Sensor_O2_Me2_O2_val (129 / 100) = Inr (209 / 10)"
  by (simp add: Sensor_O2_Me2_O2_val_def)

lemma rp: "replicate 5 (CHR ''0'') = ''00000''" "replicate 1 (CHR ''0'') = ''0''"
  by (simp_all add: numeral_eq_Suc)

lemma sn: "show_nat 0 = ''0''" "show_nat 1 = ''1''" "show_nat (Suc 0) = ''1''" "show_nat 2 = ''2''" "show_nat 3 = ''3''"
  "show_nat 25 = ''25''" "show_nat 20 = ''20''" "show_nat 90 = ''90''"
  "show_nat 100000 = ''100000''" "show_nat 900000 = ''900000''" "show_nat 200000 = ''200000''"
  by (simp_all add: show_nat.simps)

lemma sf: "show_fixed 6 0 = ''0.000000''" "show_fixed 6 1 = ''1.000000''"
  "show_fixed 6 2 = ''2.000000''" "show_fixed 6 3 = ''3.000000''"
  "show_fixed 2 25 = ''25.00''" "show_fixed 2 (209 / 10) = ''20.90''" "show_fixed 2 0 = ''0.00''"
  "show_fixed 2 1 = ''1.00''" "show_fixed 6 (1 / 10) = ''0.100000''"
  "show_fixed 6 (9 / 10) = ''0.900000''" "show_fixed 6 (1 / 5) = ''0.200000''"
  by (simp_all add: show_fixed_def Let_def sn rp)

section \<open>The ring under the supervisor and the time reset\<close>

lemma ring_inv_well_formed: "ring_inv r \<Longrightarrow> well_formed (bufidx r)"
  by (simp add: ring_inv_def well_formed_def)

lemma py_get_1: "2 \<le> length e \<Longrightarrow> py_get e 1 = Inr (e ! 1)"
  by (simp add: py_get_def)

lemma main_append_ok:
  assumes "ring_inv r"
  shows "main_append bufsize (recno, wt, record) r =
     (None, if bufsize < wt - hd (bufidx r @ [[recno, wt]]) ! 1
            then \<lparr>bufidx = tl (bufidx r @ [[recno, wt]]), bufadc = tl (bufadc r @ [record])\<rparr>
            else \<lparr>bufidx = bufidx r @ [[recno, wt]], bufadc = bufadc r @ [record]\<rparr>)"
proof -
  have "2 \<le> length (hd (bufidx r @ [[recno, wt]]))"
    using assms by (cases "bufidx r") (auto simp: ring_inv_def)
  then have "py_get (hd (bufidx r @ [[recno, wt]])) 1 = Inr (hd (bufidx r @ [[recno, wt]]) ! 1)"
    by (rule py_get_1)
  then show ?thesis by (simp add: main_append_def Let_def)
qed

lemma main_append_ring_inv:
  assumes "ring_inv r"
  shows "ring_inv (snd (main_append bufsize smp r))"
proof -
  obtain recno wt vals where smp: "smp = (recno, wt, vals)" by (cases smp) auto
  have "\<forall>e \<in> set (tl (bufidx r @ [[recno, wt]])). length e = 2"
    using assms by (cases "bufidx r") (auto simp: ring_inv_def)
  then show ?thesis
    using assms unfolding smp main_append_ok[OF assms] by (auto simp: ring_inv_def)
qed

lemma main_appends_ring_inv: "ring_inv r \<Longrightarrow> ring_inv (main_appends bufsize smps r)"
  by (induction smps arbitrary: r) (auto simp: main_append_ring_inv)

lemma ring_inv_empty: "ring_inv ring_empty"
  by (simp add: ring_inv_def ring_empty_def)

text \<open>
  Claim C1. The supervisor removes at most one record per appended sample. With a window
  of 1 second and samples at the times 0, 0.5, 1 and 3, the ring built from the empty
  ring ends as the records at 0.5, 1 and 3: its span is 2.5 seconds, above the window.
\<close>

theorem main_append_span_exceeds:
  "main_appends 1 [(0, 0, ex_record 0 ex_pt100), (1, 1 / 2, ex_record 0 ex_pt100), (2, 1, ex_record 0 ex_pt100),
       (3, 3, ex_record 0 ex_pt100)] ring_empty
     = \<lparr>bufidx = [[1, 1 / 2], [2, 1], [3, 3]],
        bufadc = [ex_record 0 ex_pt100, ex_record 0 ex_pt100, ex_record 0 ex_pt100]\<rparr>
   \<and> span \<lparr>bufidx = [[1, 1 / 2], [2, 1], [3, 3]],
           bufadc = [ex_record 0 ex_pt100, ex_record 0 ex_pt100, ex_record 0 ex_pt100]\<rparr> = 5 / 2
   \<and> \<not> (5 / 2 \<le> (1 :: real))"
  by (simp add: main_append_def ring_empty_def py_get_def span_def)

lemma shift_times_wf:
  "well_formed b \<Longrightarrow> shift_times d b = (None, map (\<lambda>e. e[1 := e ! 1 - d]) b)"
  by (induction b) (auto simp: well_formed_def)

lemma cmd_time_rst_wf:
  assumes "well_formed (bufidx r)" and "parse_float rt resp = Some d"
  shows "cmd_time_rst rt resp (r, out) =
           (None, r\<lparr>bufidx := map (\<lambda>e. e[1 := e ! 1 - d]) (bufidx r)\<rparr>, out @ [resp])"
  using assms by (simp add: cmd_time_rst_def shift_times_wf)

text \<open>
  The worker and the handler together: if Python reads back the text it printed for the
  worker's timestamp, the ring is shifted by that timestamp.
\<close>

lemma time_rst_round_trip:
  assumes "well_formed (bufidx r)"
    and "parse_float rt (fmt_repr rt (wavetime w)) = Some (wavetime w)"
  shows "cmd_time_rst rt (snd (DAQ_time_rst rt now_ns w)) (r, out) =
           (None, r\<lparr>bufidx := map (\<lambda>e. e[1 := e ! 1 - wavetime w]) (bufidx r)\<rparr>,
            out @ [fmt_repr rt (wavetime w)])"
  using assms by (simp add: DAQ_time_rst_def cmd_time_rst_wf)

text \<open>
  Claim C2. When the worker's reply \<open>resp\<close> parses to the offset \<open>d\<close>, the
  \<open>:CMD:TIME:RST\<close> branch replaces the timestamp of every index entry by its value minus
  \<open>d\<close>, keeps the record number of every entry and all channel values, raises nothing
  and sends exactly \<open>resp\<close> to the client.
\<close>

theorem cmd_time_rst_shifts:
  assumes "well_formed (bufidx r)" and "parse_float rt resp = Some d"
  shows "cmd_time_rst rt resp (r, out) =
           (None, r\<lparr>bufidx := map (\<lambda>e. e[1 := e ! 1 - d]) (bufidx r)\<rparr>, out @ [resp])
     \<and> (\<forall>i < length (bufidx r).
           map (\<lambda>e. e[1 := e ! 1 - d]) (bufidx r) ! i ! 1 = bufidx r ! i ! 1 - d
         \<and> map (\<lambda>e. e[1 := e ! 1 - d]) (bufidx r) ! i ! 0 = bufidx r ! i ! 0)
     \<and> bufadc (r\<lparr>bufidx := map (\<lambda>e. e[1 := e ! 1 - d]) (bufidx r)\<rparr>) = bufadc r"
proof -
  have "\<forall>i < length (bufidx r). 1 < length (bufidx r ! i)"
    using assms(1) well_formed_nth by blast
  then show ?thesis
    using assms by (simp add: cmd_time_rst_def shift_times_wf)
qed

lemma parse_50: "parse_float ex_runtime ''50.0'' = Some 50"
  by (simp add: ex_runtime_def parse_decimal_def digit_of_def)

theorem cmd_time_rst_shifts_witness:
  "well_formed (bufidx ex_ring) \<and> parse_float ex_runtime ''50.0'' = Some 50 \<and>
   cmd_time_rst ex_runtime ''50.0'' (ex_ring, []) =
     (None, ex_ring\<lparr>bufidx := [[0, - 50], [1, - 49], [2, - 48], [3, - 47]]\<rparr>, [''50.0''])"
proof -
  have h: "well_formed (bufidx ex_ring)" "parse_float ex_runtime ''50.0'' = Some 50"
    by (simp_all add: ex_ring_def ex_bufidx_def well_formed_def ex_runtime_def parse_decimal_def
          digit_of_def)
  have "map (\<lambda>e. e[1 := e ! 1 - 50]) (bufidx ex_ring) = [[0, - 50], [1, - 49], [2, - 48], [3, - 47]]"
    by (simp add: ex_ring_def ex_bufidx_def)
  with h cmd_time_rst_shifts[OF h, of "[]"] show ?thesis by simp
qed

section \<open>Accepting a command connection without a free response queue\<close>

lemma cmd_handler_no_slot_state:
  assumes "free_Qn st = []"
  shows "cmd_handler arg serve client_socket addr st =
     st\<lparr>err_Q := put_if (\<not> silent arg)
            (''CMD Handler '' @ addr @ '' ERROR: out of queue resources. Closing connection.'')
            (err_Q st),
        closed := True,
        daq_cmd_clients := remove1 client_socket (daq_cmd_clients st),
        msg_Q := put_if (verbose arg) (''CMD Handler '' @ addr @ '': thread stopped.'')
                   (put_if (verbose arg) (''Connection with '' @ addr @ '' closed.'') (msg_Q st))\<rparr>"
  using assms by (simp add: cmd_handler_def Let_def)

text \<open>
  Claim C8 as stated fails: with all response queues taken the handler sends nothing to the
  client, so no \<open>ERR\<close> reply is made; it only closes the connection.
\<close>

theorem cmd_handler_no_slot_counterexample:
  "free_Qn ex_full_server = [] \<and>
   sent (cmd_handler ex_options (\<lambda>q s. s) 6 ''addr'' ex_full_server) = [] \<and>
   closed (cmd_handler ex_options (\<lambda>q s. s) 6 ''addr'' ex_full_server)"
  by (simp add: cmd_handler_no_slot_state ex_full_server_def)

text \<open>
  Claim C8, amended. When no response queue is free, \<open>cmd_handler\<close> sends nothing to the
  client, closes the connection, leaves the command queue as it is (no command of the
  connection reaches the worker, whatever the serving loop would do), takes no queue from
  the pool and, unless \<open>--silent\<close> is set, puts the rejection on the error queue.
\<close>

theorem cmd_handler_no_slot:
  assumes "free_Qn st = []"
  shows "sent (cmd_handler arg serve client_socket addr st) = sent st
     \<and> closed (cmd_handler arg serve client_socket addr st)
     \<and> cmd_Q (cmd_handler arg serve client_socket addr st) = cmd_Q st
     \<and> free_Qn (cmd_handler arg serve client_socket addr st) = []
     \<and> err_Q (cmd_handler arg serve client_socket addr st) =
         (if silent arg then err_Q st
          else err_Q st @ [''CMD Handler '' @ addr @ '' ERROR: out of queue resources. Closing connection.''])"
  using assms by (simp add: cmd_handler_no_slot_state put_if_def)

theorem cmd_handler_no_slot_witness:
  "free_Qn ex_full_server = [] \<and>
   sent (cmd_handler ex_options (\<lambda>q s. s) 6 ''addr'' ex_full_server) = sent ex_full_server \<and>
   closed (cmd_handler ex_options (\<lambda>q s. s) 6 ''addr'' ex_full_server) \<and>
   cmd_Q (cmd_handler ex_options (\<lambda>q s. s) 6 ''addr'' ex_full_server) = [] \<and>
   err_Q (cmd_handler ex_options (\<lambda>q s. s) 6 ''addr'' ex_full_server) =
     [''CMD Handler addr ERROR: out of queue resources. Closing connection.'']"
proof -
  have h: "free_Qn ex_full_server = []" by (simp add: ex_full_server_def)
  from cmd_handler_no_slot[OF h, of ex_options "\<lambda>q s. s" 6 "''addr''"] h
  show ?thesis by (simp add: ex_full_server_def ex_options_def)
qed

section \<open>Calibration curves\<close>

lemma horner_snoc:
  "foldl (\<lambda>y pv. y * x + pv) a (p @ [c]) = foldl (\<lambda>y pv. y * x + pv) a p * x + c"
  by simp

lemma poly_eval_snoc: "poly_eval (p @ [c]) x = poly_eval p x * x + c"
proof -
  have "(\<Sum>i < length p. (p @ [c]) ! i * x ^ (length p - i))
      = (\<Sum>i < length p. p ! i * x ^ (length p - 1 - i) * x)"
  proof (rule sum.cong[OF refl])
    fix i assume "i \<in> {..<length p}"
    then have i: "i < length p" by simp
    then have "length p - i = Suc (length p - 1 - i)" by simp
    then show "(p @ [c]) ! i * x ^ (length p - i) = p ! i * x ^ (length p - 1 - i) * x"
      using i by (simp add: nth_append)
  qed
  then show ?thesis
    by (simp add: poly_eval_def sum_distrib_right)
qed

lemma horner_poly_eval: "foldl (\<lambda>y pv. y * x + pv) 0 p = poly_eval p x"
proof (induction p rule: rev_induct)
  case Nil
  show ?case by (simp add: poly_eval_def)
next
  case (snoc c p)
  then show ?case by (simp add: poly_eval_snoc)
qed

lemma polyval_single: "polyval p [x] = [poly_eval p x]"
  by (simp add: polyval_def horner_poly_eval)

lemma calc_ppm_set:
  "calc_ppm \<lparr>z_cell_adc2h2 = Some zc, z_tgs_h2_2adc = Some zt, z_tgs_adc2ch4 = Some za\<rparr> h2adc ch4adc =
     Inr (poly_eval zc h2adc,
          poly_eval za ((ch4adc + 20 / 1000) - poly_eval zt (poly_eval zc h2adc)))"
  by (simp add: calc_ppm_def global_get_def polyval_single Let_def)

lemma compute_calib_curves_keys:
  assumes "cal ''tgs_comp'' = Some tc"
    and "cal ''cell_h2_50ppm'' = Some c50" and "cal ''cell_h2_100ppm'' = Some c100"
    and "cal ''tgs_h2_50ppm'' = Some h50" and "cal ''tgs_h2_100ppm'' = Some h100"
    and "cal ''tgs_ch4_50ppm'' = Some m50" and "cal ''tgs_ch4_100ppm'' = Some m100"
  shows "compute_calib_curves polyfit cal z =
     (\<lparr>z_cell_adc2h2 = Some (polyfit [0, c50, c100] [0, 50, 100] 1),
       z_tgs_h2_2adc = Some (polyfit [0, 50, 100] [0, h50 + tc, h100 + tc] 2),
       z_tgs_adc2ch4 = Some (polyfit [0, m50 + tc, m100 + tc] [0, 50, 100] 2)\<rparr>,
      ''Calibration curves computed.'')"
  using assms by (simp add: compute_calib_curves_def calib_points_def dict_get_def)

text \<open>
  Claim C7. For a calibration dictionary that has the seven keys, after
  \<open>compute_calib_curves\<close> the function \<open>calc_ppm\<close> returns \<open>(h2ppm, ch4ppm)\<close> with
  \<open>h2ppm\<close> the value at \<open>h2adc\<close> of the degree-1 fit of \<open>(0, 0)\<close>,
  \<open>(cell_h2_50ppm, 50)\<close>, \<open>(cell_h2_100ppm, 100)\<close>, \<open>h2adj\<close> the value at \<open>h2ppm\<close> of the
  degree-2 fit of \<open>(0, 0)\<close>, \<open>(50, tgs_h2_50ppm + tgs_comp)\<close>,
  \<open>(100, tgs_h2_100ppm + tgs_comp)\<close>, and \<open>ch4ppm\<close> the value at
  \<open>(ch4adc + 20e-3) - h2adj\<close> of the degree-2 fit of \<open>(0, 0)\<close>,
  \<open>(tgs_ch4_50ppm + tgs_comp, 50)\<close>, \<open>(tgs_ch4_100ppm + tgs_comp, 100)\<close>. The value of a
  polynomial is \<open>poly_eval\<close>, which \<open>np.polyval\<close> computes by Horner's rule.
\<close>

theorem calc_ppm_curves:
  assumes "cal ''tgs_comp'' = Some tc"
    and "cal ''cell_h2_50ppm'' = Some c50" and "cal ''cell_h2_100ppm'' = Some c100"
    and "cal ''tgs_h2_50ppm'' = Some h50" and "cal ''tgs_h2_100ppm'' = Some h100"
    and "cal ''tgs_ch4_50ppm'' = Some m50" and "cal ''tgs_ch4_100ppm'' = Some m100"
  shows "calc_ppm (fst (compute_calib_curves polyfit cal z)) h2adc ch4adc =
     Inr (poly_eval (polyfit [0, c50, c100] [0, 50, 100] 1) h2adc,
          poly_eval (polyfit [0, m50 + tc, m100 + tc] [0, 50, 100] 2)
            ((ch4adc + 20 / 1000)
              - poly_eval (polyfit [0, 50, 100] [0, h50 + tc, h100 + tc] 2)
                  (poly_eval (polyfit [0, c50, c100] [0, 50, 100] 1) h2adc)))"
  by (simp add: compute_calib_curves_keys[OF assms] calc_ppm_set)

theorem calc_ppm_curves_witness:
  "ex_calib ''tgs_comp'' = Some 0 \<and>
   ex_calib ''cell_h2_50ppm'' = Some 1 \<and> ex_calib ''cell_h2_100ppm'' = Some 2 \<and>
   ex_calib ''tgs_h2_50ppm'' = Some 1 \<and> ex_calib ''tgs_h2_100ppm'' = Some 2 \<and>
   ex_calib ''tgs_ch4_50ppm'' = Some 1 \<and> ex_calib ''tgs_ch4_100ppm'' = Some 2 \<and>
   calc_ppm (fst (compute_calib_curves ex_polyfit ex_calib no_curves)) 1 (3 / 2) = Inr (50, 26)"
proof -
  have h: "ex_calib ''tgs_comp'' = Some 0"
    "ex_calib ''cell_h2_50ppm'' = Some 1" "ex_calib ''cell_h2_100ppm'' = Some 2"
    "ex_calib ''tgs_h2_50ppm'' = Some 1" "ex_calib ''tgs_h2_100ppm'' = Some 2"
    "ex_calib ''tgs_ch4_50ppm'' = Some 1" "ex_calib ''tgs_ch4_100ppm'' = Some 2"
    by (simp_all add: ex_calib_def)
  have f: "ex_polyfit [0, 1, 2] [0, 50, 100] (Suc 0) = [50, 0]"
    "ex_polyfit [0, 50, 100] [0, 1, 2] 2 = [0, 1 / 50, 0]"
    "ex_polyfit [0, 1, 2] [0, 50, 100] 2 = [0, 50, 0]"
    by (simp_all add: ex_polyfit_def)
  have e: "poly_eval [50, 0] x = 50 * x" "poly_eval [0, 1 / 50, 0] x = x / 50"
    "poly_eval [0, 50, 0] x = 50 * x" for x :: real
    by (simp_all add: poly_eval_def lessThan_Suc numeral_3_eq_3)
  from calc_ppm_curves[OF h, of ex_polyfit no_curves 1 "3 / 2"] h
  show ?thesis by (simp add: f e)
qed

section \<open>Median over a window of length zero\<close>

lemma strict_sorted_times:
  assumes "sorted_wrt (<) (times b)"
  shows "sorted (times b)" and "\<And>i j. i < j \<Longrightarrow> j < length b \<Longrightarrow> tstamp b i < tstamp b j"
proof -
  show "sorted (times b)"
    using assms by (simp add: strict_sorted_imp_sorted)
  fix i j assume "i < j" "j < length b"
  then show "tstamp b i < tstamp b j"
    using assms by (simp add: times_def tstamp_def sorted_wrt_iff_nth_less)
qed

lemma find_time_index_exact:
  assumes "well_formed b" "sorted_wrt (<) (times b)" "p < length b"
  shows "find_time_index (tstamp b p) b = (int p, b)"
proof -
  from assms(3) have ne: "b \<noteq> []" by auto
  have "index_at b (tstamp b p) = p"
    using assms(3) strict_sorted_times(2)[OF assms(2)] by (intro index_at_eqI) auto
  then show ?thesis
    using find_time_index_index_at[OF ne assms(1) strict_sorted_times(1)[OF assms(2)], of "tstamp b p"]
    by (simp only:)
qed

lemma ring_time_nth:
  assumes "well_formed b" "p < length b"
  shows "ring_time b (int p) = Inr (tstamp b p)"
  using assms well_formed_nth[OF assms]
  by (simp add: ring_time_def py_get_def tstamp_def)

lemma ring_time_last:
  assumes "well_formed b" "b \<noteq> []"
  shows "ring_time b (- 1) = Inr (tstamp b (length b - 1))"
proof -
  from assms(2) have lt: "length b - 1 < length b" by simp
  have n: "nat (int (length b) - 1) = length b - 1" by simp
  have pos: "0 < length b" using assms(2) by simp
  show ?thesis
    using pos well_formed_nth[OF assms(1) lt]
    by (simp add: ring_time_def py_get_def tstamp_def n Suc_le_eq)
qed

lemma py_slice_single:
  assumes "p < length xs"
  shows "py_slice xs (int p) (int p + 1) = [xs ! p]"
proof -
  have "slice_bound (length xs) (int p) = p" "slice_bound (length xs) (int p + 1) = Suc p"
    using assms by (simp_all add: slice_bound_def nat_add_distrib)
  then show ?thesis
    using assms by (simp add: py_slice_def Let_def take_Suc_conv_app_nth)
qed

lemma py_get_nat: "py_get xs (int i) = (if i < length xs then Inr (xs ! i)
     else Inl (IndexError ''list index out of range''))"
  by (simp add: py_get_def)

lemma np_median_single: "np_median [v] = Inr v"
  by (simp add: np_median_def)

lemma median_avg_zero:
  assumes "ring_inv r" "sorted_wrt (<) (times (bufidx r))" "p < length (bufidx r)"
  shows "median_avg s (int p) 0 r = (py_get (bufadc r ! p) (int s), r)"
proof -
  have wf: "well_formed (bufidx r)" using assms(1) by (rule ring_inv_well_formed)
  have len: "p < length (bufadc r)" using assms(1,3) by (simp add: ring_inv_def)
  have rt: "ring_time (bufidx r) (int p) = Inr (tstamp (bufidx r) p)"
    using wf assms(3) by (rule ring_time_nth)
  have fti: "find_time_index (tstamp (bufidx r) p) (bufidx r) = (int p, bufidx r)"
    using wf assms(2,3) by (rule find_time_index_exact)
  have sl: "py_slice (bufadc r) (int p) (int p + 1) = [bufadc r ! p]"
    using len by (rule py_slice_single)
  show ?thesis
    by (simp add: median_avg_def rt fti sl py_get_nat np_median_single)
qed

text \<open>The last step of \<open>:CMD:READ?\<close> at a position of the ring, with and without a window.\<close>

lemma read_window_zero:
  assumes "ring_inv r" "sorted_wrt (<) (times (bufidx r))" "k < length (bufidx r)"
  shows "(case median_avg sns (int k) 0 r of
            (Inl e, r2) \<Rightarrow> (Inl e, r2)
          | (Inr m, r2) \<Rightarrow> (sensor_format rt sn m, r2))
       = (case py_get (bufadc r) (int k) of
            Inl e \<Rightarrow> (Inl e, r)
          | Inr record \<Rightarrow>
              (case py_get record (int sns) of
                 Inl e \<Rightarrow> (Inl e, r)
               | Inr v \<Rightarrow> (sensor_format rt sn v, r)))"
proof -
  have len: "k < length (bufadc r)" using assms(1,3) by (simp add: ring_inv_def)
  show ?thesis
    unfolding median_avg_zero[OF assms] using len by (simp add: py_get_nat)
qed

lemma cmd_read_try_window_zero:
  assumes "ring_inv r" "sorted_wrt (<) (times (bufidx r))"
  shows "cmd_read_try rt sens fields1 (Some ta) (Some 0) r = cmd_read_try rt sens fields1 (Some ta) None r"
proof (cases "bufidx r = []")
  case True
  then have "ring_time (bufidx r) 0 = Inl (IndexError ''list index out of range'')"
    by (simp add: ring_time_def py_get_def)
  then show ?thesis
    by (simp add: cmd_read_try_def Let_def split: option.splits sum.splits time_arg.splits)
next
  case ne: False
  have wf: "well_formed (bufidx r)" using assms(1) by (rule ring_inv_well_formed)
  have srt: "sorted (times (bufidx r))" using assms(2) by (rule strict_sorted_times(1))
  have t0: "ring_time (bufidx r) 0 = Inr (tstamp (bufidx r) 0)"
    using ring_time_nth[OF wf, of 0] ne by simp
  have tl: "ring_time (bufidx r) (- 1) = Inr (tstamp (bufidx r) (length (bufidx r) - 1))"
    using wf ne by (rule ring_time_last)
  have fti: "find_time_index t (bufidx r) = (int (index_at (bufidx r) t), bufidx r)" for t
    using ne wf srt by (rule find_time_index_index_at)
  have k: "index_at (bufidx r) t < length (bufidx r)" for t
  proof -
    have "index_at (bufidx r) t \<le> length (bufidx r) - 1" by (simp add: index_at_def)
    moreover have "0 < length (bufidx r)" using ne by simp
    ultimately show ?thesis by linarith
  qed
  have same: "r\<lparr>bufidx := bufidx r\<rparr> = r" by simp
  show ?thesis
    unfolding cmd_read_try_def t0 tl fti same
    by (simp add: Let_def read_window_zero[OF assms k] split: option.splits sum.splits)
qed

text \<open>
  Claim C6. On a ring with one index entry per record and strictly increasing timestamps,
  for every valid end index \<open>p\<close> and every channel \<open>s\<close>, \<open>median_avg(s, p, 0)\<close> is the
  point read \<open>bufadc[p][s]\<close> (the stored value, or the same \<open>IndexError\<close> when the record
  has no channel \<open>s\<close>) and leaves the ring unchanged; so a \<open>:CMD:READ?\<close> with window 0
  sends the reply of the same request without a window.
\<close>

theorem median_window_zero:
  assumes "ring_inv r" and "sorted_wrt (<) (times (bufidx r))"
  shows "(\<forall>p < length (bufidx r).
            median_avg s (int p) 0 r = (py_get (bufadc r ! p) (int s), r)
          \<and> (s < length (bufadc r ! p) \<longrightarrow> median_avg s (int p) 0 r = (Inr (bufadc r ! p ! s), r)))
     \<and> cmd_read rt sens fields1 (Some ta) (Some 0) (r, out)
         = cmd_read rt sens fields1 (Some ta) None (r, out)"
  using assms
  by (simp add: median_avg_zero py_get_nat cmd_read_def cmd_read_try_window_zero)

lemma ex_ring_inv: "ring_inv ex_ring"
  by (simp add: ring_inv_def ex_ring_def ex_bufidx_def)

lemma ex_ring_strict: "sorted_wrt (<) (times (bufidx ex_ring))"
  by (simp add: times_def ex_ring_def ex_bufidx_def)

theorem median_window_zero_witness:
  "ring_inv ex_ring \<and> sorted_wrt (<) (times (bufidx ex_ring)) \<and>
   median_avg 3 1 0 ex_ring = (Inr (9 / 10), ex_ring) \<and>
   cmd_read ex_runtime create_sensors (Some ''H2'') (Some (T_VAL 1)) (Some 0) (ex_ring, [])
     = cmd_read ex_runtime create_sensors (Some ''H2'') (Some (T_VAL 1)) None (ex_ring, [])"
proof -
  note h = ex_ring_inv ex_ring_strict
  have l: "(1 :: nat) < length (bufidx ex_ring)" "3 < length (bufadc ex_ring ! 1)"
    "bufadc ex_ring ! 1 ! 3 = 9 / 10"
    by (simp_all add: ex_ring_def ex_bufidx_def ex_record_def)
  from median_window_zero[OF h, of 3 ex_runtime create_sensors "Some ''H2''" "T_VAL 1" "[]"] l h
  show ?thesis by auto
qed

section \<open>The data service\<close>

lemma drop_take_nth:
  assumes "n \<le> length xs"
  shows "drop p (take n xs) = map (nth xs) [p ..< n]"
proof (rule nth_equalityI)
  show "length (drop p (take n xs)) = length (map (nth xs) [p ..< n])"
    using assms by simp
next
  fix i assume "i < length (drop p (take n xs))"
  then have "i < n - p" using assms by simp
  then show "drop p (take n xs) ! i = map (nth xs) [p ..< n] ! i"
    using assms by simp
qed

lemma py_slice_range:
  assumes "q < length xs"
  shows "py_slice xs (int p) (int q + 1) = map (nth xs) [p ..< Suc q]"
proof -
  have sb: "slice_bound (length xs) (int q + 1) = Suc q"
    using assms by (simp add: slice_bound_def nat_add_distrib)
  have sa: "slice_bound (length xs) (int p) = min p (length xs)"
    by (simp add: slice_bound_def)
  have le: "Suc q \<le> length xs" using assms by simp
  show ?thesis
  proof (cases "p \<le> q")
    case True
    then have "min p (length xs) = p" using assms by simp
    then have "py_slice xs (int p) (int q + 1) = take (Suc q - p) (drop p xs)"
      by (simp add: py_slice_def Let_def sa sb)
    also have "\<dots> = drop p (take (Suc q) xs)"
      by (simp only: drop_take)
    also have "\<dots> = map (nth xs) [p ..< Suc q]"
      using le by (rule drop_take_nth)
    finally show ?thesis .
  next
    case False
    then have "Suc q - min p (length xs) = 0" "[p ..< Suc q] = []"
      using assms by simp_all
    then show ?thesis
      by (simp add: py_slice_def Let_def sa sb)
  qed
qed

lemma drop_to_last:
  assumes "xs \<noteq> []"
  shows "drop (length xs - 1) xs = [last xs]"
proof -
  have "drop (length (butlast xs)) (butlast xs @ [last xs]) = [last xs]"
    by simp
  then show ?thesis
    using assms by simp
qed

lemma py_slice_last:
  assumes "xs \<noteq> []"
  shows "py_slice xs (int (length xs) - 1) (int (length xs)) = [last xs]"
proof -
  have pos: "0 < length xs" using assms by simp
  have lo: "slice_bound (length xs) (int (length xs) - 1) = length xs - 1"
    using pos by (simp add: slice_bound_def nat_diff_distrib)
  have hi: "slice_bound (length xs) (int (length xs)) = length xs"
    by (simp add: slice_bound_def)
  have d: "length xs - (length xs - 1) = 1" using pos by arith
  show ?thesis
    unfolding py_slice_def Let_def lo hi d drop_to_last[OF assms] by simp
qed

lemma data_read_select_newest:
  assumes "bufidx r \<noteq> []" "ring_inv r"
  shows "data_read_select [] r = ([(last (bufidx r), last (bufadc r))], r)"
proof -
  have len: "length (bufadc r) = length (bufidx r)" using assms(2) by (simp add: ring_inv_def)
  then have ne: "bufadc r \<noteq> []" using assms(1) by auto
  show ?thesis
    using py_slice_last[OF assms(1)] py_slice_last[OF ne]
    by (simp add: data_read_select_def Let_def len)
qed

lemma data_line_wf:
  assumes "2 \<le> length e"
  shows "data_line rt sens (e, vals) =
     (case format_record rt sens (e ! 1) vals of Inl x \<Rightarrow> Inl x | Inr l \<Rightarrow> Inr (l @ [CHR 0x0A]))"
  using assms by (simp add: data_line_def py_get_1)

lemma data_read_newest_reply:
  assumes "bufidx r \<noteq> []" "ring_inv r"
  shows "data_read rt sens [] (r, out) =
     (r, out @ (case format_record rt sens (tstamp (bufidx r) (length (bufidx r) - 1)) (last (bufadc r)) of
                  Inl e \<Rightarrow> [''ERR: '' @ exc_str e]
                | Inr l \<Rightarrow> [l @ [CHR 0x0A], ''OK'']))"
proof -
  have "last (bufidx r) \<in> set (bufidx r)" using assms(1) by simp
  then have l2: "2 \<le> length (last (bufidx r))" using assms(2) by (simp add: ring_inv_def)
  have lt: "last (bufidx r) ! Suc 0 = tstamp (bufidx r) (length (bufidx r) - Suc 0)"
    using assms(1) by (simp add: tstamp_def last_conv_nth)
  show ?thesis
    by (simp add: data_read_def data_read_select_newest[OF assms] data_line_wf[OF l2] lt
          split: sum.splits)
qed

text \<open>The supervisor streams the same line, without the newline.\<close>

lemma main_handle_sample_streams:
  assumes "ring_inv (ring st)" "format_record rt sens wt vals = Inr l"
  shows "data_queues (main_handle_sample rt sens bufsize (recno, wt, vals) st)
           = map (\<lambda>q. q @ [l]) (data_queues st)"
  using assms by (simp add: main_handle_sample_def main_append_ok split: if_splits)

lemma fmt_ex_record:
  assumes "show_fixed 6 t = ts" "show_fixed 6 h = hs"
  shows "format_record ex_runtime create_sensors t (ex_record h ex_pt100) = Inr (ex_line ts hs)"
  using assms
  by (simp add: format_record_def create_sensors_def mk_sensor_def sensor_format_def
        ex_runtime_def ex_record_def ex_line_def Sensor_val_def T10k_val_one PT100_val_zero
        O2_val_base sf)

lemma fmt_ex_hot:
  "format_record ex_runtime create_sensors t (ex_record h 10) = Inl (ValueError ''math domain error'')"
  by (simp add: format_record_def create_sensors_def mk_sensor_def sensor_format_def
        ex_runtime_def ex_record_def Sensor_val_def T10k_val_one PT100_val_ten O2_val_base)

text \<open>
  Claim C10 as stated fails for a ring whose newest record cannot be formatted: with a
  \<open>PT100\<close> reading of 10 volts the conversion raises and the only reply is
  \<open>ERR: math domain error\<close>.
\<close>

theorem data_read_no_time_counterexample:
  "bufidx ex_hot_ring \<noteq> [] \<and>
   data_read ex_runtime create_sensors [] (ex_hot_ring, []) = (ex_hot_ring, [''ERR: math domain error''])"
proof -
  have h: "bufidx ex_hot_ring \<noteq> []" "ring_inv ex_hot_ring"
    by (simp_all add: ex_hot_ring_def ring_inv_def)
  have "last (bufadc ex_hot_ring) = ex_record (1 / 10) 10"
    by (simp add: ex_hot_ring_def)
  then show ?thesis
    using h by (simp add: data_read_newest_reply[OF h] fmt_ex_hot)
qed

text \<open>
  Claim C10, amended. On a non-empty ring a \<open>:DATA:READ?\<close> without a time argument selects
  the newest record alone. If that record formats, the handler sends its line (the line of
  the live stream with a newline) and then \<open>OK\<close>; if formatting raises, it sends only
  \<open>ERR: \<close> followed by the message.
\<close>

theorem data_read_no_time:
  assumes "bufidx r \<noteq> []" and "ring_inv r"
  shows "data_read rt sens [] (r, out) =
     (r, out @ (case format_record rt sens (tstamp (bufidx r) (length (bufidx r) - 1)) (last (bufadc r)) of
                  Inl e \<Rightarrow> [''ERR: '' @ exc_str e]
                | Inr l \<Rightarrow> [l @ [CHR 0x0A], ''OK'']))"
  using assms by (rule data_read_newest_reply)

theorem data_read_no_time_witness:
  "bufidx ex_ring \<noteq> [] \<and> ring_inv ex_ring \<and>
   data_read ex_runtime create_sensors [] (ex_ring, []) =
     (ex_ring, [ex_line ''3.000000'' ''0.100000'' @ [CHR 0x0A], ''OK''])"
proof -
  have h: "bufidx ex_ring \<noteq> []" "ring_inv ex_ring"
    by (simp_all add: ex_ring_def ex_bufidx_def ring_inv_def)
  have v: "tstamp (bufidx ex_ring) (length (bufidx ex_ring) - Suc 0) = 3"
    "last (bufadc ex_ring) = ex_record (1 / 10) ex_pt100"
    by (simp_all add: ex_ring_def ex_bufidx_def tstamp_def)
  from data_read_no_time[OF h, of ex_runtime create_sensors "[]"] h
  show ?thesis by (simp add: v fmt_ex_record[OF sf(4) sf(9)])
qed
section \<open>The range dump\<close>

lemma index_at_less:
  assumes "b \<noteq> []"
  shows "index_at b t < length b"
proof -
  have "index_at b t \<le> length b - 1" by (simp add: index_at_def)
  moreover have "0 < length b" using assms by simp
  ultimately show ?thesis by linarith
qed

lemma zip_map_nth:
  "zip (map (nth xs) is) (map (nth ys) is) = map (\<lambda>i. (xs ! i, ys ! i)) is"
  by (induction "is") auto

lemma data_read_select_range:
  assumes "bufidx r \<noteq> []" "ring_inv r" "sorted (times (bufidx r))"
  shows "data_read_select [t0, t1] r =
     (map (\<lambda>i. (bufidx r ! i, bufadc r ! i)) (index_range (bufidx r) t0 t1), r)"
proof -
  have wf: "well_formed (bufidx r)" using assms(2) by (rule ring_inv_well_formed)
  have fti: "find_time_index t (bufidx r) = (int (index_at (bufidx r) t), bufidx r)" for t
    using assms(1) wf assms(3) by (rule find_time_index_index_at)
  have q: "index_at (bufidx r) t1 < length (bufidx r)"
    using assms(1) by (rule index_at_less)
  then have q': "index_at (bufidx r) t1 < length (bufadc r)"
    using assms(2) by (simp add: ring_inv_def)
  show ?thesis
    by (simp add: data_read_select_def Let_def fti py_slice_range[OF q] py_slice_range[OF q']
          zip_map_nth index_range_def)
qed

lemma collect_lines_map:
  "\<forall>i \<in> set ps. data_line rt sens (g i) = Inr (f i) \<Longrightarrow>
   collect_lines rt sens (map g ps) = Inr (map f ps)"
  by (induction ps) auto

lemma index_range_iff:
  "i \<in> set (index_range b t0 t1) \<longleftrightarrow> index_at b t0 \<le> i \<and> i \<le> index_at b t1"
  by (auto simp: index_range_def)

lemma index_range_less:
  assumes "b \<noteq> []" "i \<in> set (index_range b t0 t1)"
  shows "i < length b"
  using assms index_at_less[OF assms(1), of t1] by (simp add: index_range_iff)

lemma data_read_range_reply:
  assumes "bufidx r \<noteq> []" "ring_inv r" "sorted (times (bufidx r))"
    and fmt: "\<forall>i < length (bufidx r).
                format_record rt sens (tstamp (bufidx r) i) (bufadc r ! i) = Inr (line i)"
  shows "data_read rt sens [t0, t1] (r, out) =
     (r, out @ map (\<lambda>i. line i @ [CHR 0x0A]) (index_range (bufidx r) t0 t1) @ [''OK''])"
proof -
  let ?sel = "map (\<lambda>i. (bufidx r ! i, bufadc r ! i)) (index_range (bufidx r) t0 t1)"
  have wf: "well_formed (bufidx r)" using assms(2) by (rule ring_inv_well_formed)
  have "\<forall>i \<in> set (index_range (bufidx r) t0 t1).
          data_line rt sens (bufidx r ! i, bufadc r ! i) = Inr (line i @ [CHR 0x0A])"
  proof
    fix i assume "i \<in> set (index_range (bufidx r) t0 t1)"
    then have i: "i < length (bufidx r)" using assms(1) by (intro index_range_less)
    then have "2 \<le> length (bufidx r ! i)" using well_formed_nth[OF wf i] by simp
    then show "data_line rt sens (bufidx r ! i, bufadc r ! i) = Inr (line i @ [CHR 0x0A])"
      using fmt i by (simp add: data_line_wf tstamp_def)
  qed
  then have "collect_lines rt sens ?sel
      = Inr (map (\<lambda>i. line i @ [CHR 0x0A]) (index_range (bufidx r) t0 t1))"
    by (rule collect_lines_map)
  then show ?thesis
    by (simp add: data_read_def data_read_select_range[OF assms(1-3)])
qed


lemma index_at_le:
  assumes "i < length b" "t \<le> tstamp b i"
  shows "index_at b t \<le> i"
proof -
  let ?tw = "takeWhile (\<lambda>e. e ! 1 < t) b"
  have "length ?tw \<le> i"
  proof (rule ccontr)
    assume "\<not> length ?tw \<le> i"
    then have l: "i < length ?tw" by simp
    then have "?tw ! i = b ! i" by (rule takeWhile_nth)
    moreover have "?tw ! i \<in> set ?tw" using l by simp
    ultimately have "b ! i \<in> set ?tw" by simp
    then have "b ! i ! 1 < t" by (rule set_takeWhileD[THEN conjunct2])
    with assms(2) show False by (simp add: tstamp_def)
  qed
  then show ?thesis by (simp add: index_at_def)
qed

lemma index_at_gt:
  assumes "sorted (times b)" "i < length b" "tstamp b i < t"
  shows "i \<le> index_at b t" and "i < index_at b t \<or> index_at b t = length b - 1"
proof -
  let ?tw = "takeWhile (\<lambda>e. e ! 1 < t) b"
  have "Suc i \<le> length ?tw"
  proof (rule length_takeWhile_less_P_nth)
    fix j assume "j < Suc i"
    then have "tstamp b j \<le> tstamp b i" using assms(1,2) by (intro sorted_times_nth) auto
    with assms(3) show "b ! j ! 1 < t" by (simp add: tstamp_def)
  next
    show "Suc i \<le> length b" using assms(2) by simp
  qed
  then show "i \<le> index_at b t" and "i < index_at b t \<or> index_at b t = length b - 1"
    using assms(2) by (auto simp: index_at_def min_def)
qed

lemma index_at_before:
  assumes "i < index_at b t"
  shows "tstamp b i < t"
proof -
  let ?tw = "takeWhile (\<lambda>e. e ! 1 < t) b"
  have l: "i < length ?tw" using assms by (simp add: index_at_def)
  then have "?tw ! i = b ! i" by (rule takeWhile_nth)
  moreover have "?tw ! i \<in> set ?tw" using l by simp
  ultimately have "b ! i \<in> set ?tw" by simp
  then have "b ! i ! 1 < t" by (rule set_takeWhileD[THEN conjunct2])
  then show ?thesis by (simp add: tstamp_def)
qed

lemma index_at_from:
  assumes "sorted (times b)" "index_at b t \<le> i" "i < length b" "i < length b - 1"
  shows "t \<le> tstamp b i"
proof -
  let ?tw = "takeWhile (\<lambda>e. e ! 1 < t) b"
  let ?p = "index_at b t"
  have p: "?p < length b - 1" using assms(2,4) by simp
  then have "?p = length ?tw" by (simp add: index_at_def min_def split: if_splits)
  moreover have "length ?tw < length b" using p calculation by simp
  then have "\<not> b ! length ?tw ! 1 < t" by (rule nth_length_takeWhile)
  ultimately have "t \<le> tstamp b ?p" by (simp add: tstamp_def)
  also have "\<dots> \<le> tstamp b i" using assms(1,2,3) by (rule sorted_times_nth)
  finally show ?thesis .
qed

lemma index_at_exact:
  assumes "sorted_wrt (<) (times b)" "i < length b"
  shows "index_at b (tstamp b i) = i"
proof (rule index_at_eqI)
  show "i < length b" by (rule assms(2))
  show "tstamp b i \<le> tstamp b i" by simp
  show "\<forall>j < i. tstamp b j < tstamp b i"
    using strict_sorted_times(2)[OF assms(1)] assms(2) by simp
qed

lemma index_range_covers:
  assumes "sorted (times b)" "i < length b" "t0 \<le> tstamp b i" "tstamp b i < t1"
  shows "i \<in> set (index_range b t0 t1)"
  using index_at_le[OF assms(2,3)] index_at_gt(1)[OF assms(1,2,4)]
  by (simp add: index_range_iff)

lemma index_range_covers_end:
  assumes "sorted_wrt (<) (times b)" "i < length b" "t0 \<le> tstamp b i" "tstamp b i = t1"
  shows "i \<in> set (index_range b t0 t1)"
  using index_at_le[OF assms(2,3)] index_at_exact[OF assms(1,2)] assms(4)
  by (simp add: index_range_iff)

lemma index_range_inside:
  assumes "sorted (times b)" "i \<in> set (index_range b t0 t1)" "i < index_at b t1" "b \<noteq> []"
  shows "t0 \<le> tstamp b i \<and> tstamp b i < t1"
proof
  have q: "index_at b t1 < length b" using assms(4) by (rule index_at_less)
  have "index_at b t0 \<le> i" using assms(2) by (simp add: index_range_iff)
  moreover have "i < length b" "i < length b - 1" using assms(3) q by simp_all
  ultimately show "t0 \<le> tstamp b i" using assms(1) by (intro index_at_from)
  show "tstamp b i < t1" using assms(3) by (rule index_at_before)
qed


lemma ex_ring_lines:
  "\<forall>i < length (bufidx ex_ring).
     format_record ex_runtime create_sensors (tstamp (bufidx ex_ring) i) (bufadc ex_ring ! i)
       = Inr (ex_lines ! i)"
proof -
  have "format_record ex_runtime create_sensors (tstamp (bufidx ex_ring) i) (bufadc ex_ring ! i)
       = Inr (ex_lines ! i)" if "i = 0 \<or> i = 1 \<or> i = 2 \<or> i = 3" for i
    using that fmt_ex_record[OF sf(1) sf(9)] fmt_ex_record[OF sf(2) sf(10)]
      fmt_ex_record[OF sf(3) sf(11)] fmt_ex_record[OF sf(4) sf(9)]
    by (auto simp: ex_ring_def ex_bufidx_def tstamp_def ex_lines_def)
  moreover have "i = 0 \<or> i = 1 \<or> i = 2 \<or> i = 3" if "i < length (bufidx ex_ring)" for i
    using that by (auto simp: ex_ring_def ex_bufidx_def)
  ultimately show ?thesis by blast
qed

lemma ex_ring_ne: "bufidx ex_ring \<noteq> []"
  by (simp add: ex_ring_def ex_bufidx_def)

lemma ex_ring_sorted: "sorted (times (bufidx ex_ring))"
  by (simp add: times_def ex_ring_def ex_bufidx_def)

text \<open>
  Claim C4 does not hold of the code. The handler is documented to send the records from
  the start time to the end time, but its slice runs up to and including the index that
  \<open>find_time_index\<close> returns for the end time, which is the first record at or after the
  end time. On the ring with the timestamps 0, 1, 2, 3 the request
  \<open>:DATA:READ? 0.5, 1.5\<close> sends the record of time 1, then the record of time 2, which
  lies after the end time, and then \<open>OK\<close>.
\<close>

theorem data_read_range_exceeds:
  "times (bufidx ex_ring) = [0, 1, 2, 3] \<and>
   \<not> tstamp (bufidx ex_ring) 2 \<le> 3 / 2 \<and>
   bufadc ex_ring ! 2 = ex_record (1 / 5) ex_pt100 \<and>
   data_read ex_runtime create_sensors [1 / 2, 3 / 2] (ex_ring, []) =
     (ex_ring, [ex_line ''1.000000'' ''0.900000'' @ [CHR 0x0A],
                ex_line ''2.000000'' ''0.200000'' @ [CHR 0x0A], ''OK''])"
proof -
  have ir: "index_range (bufidx ex_ring) (1 / 2) (3 / 2) = [1, 2]"
    by (simp add: index_range_def index_at_def ex_ring_def ex_bufidx_def upt_conv_Cons)
  have "data_read ex_runtime create_sensors [1 / 2, 3 / 2] (ex_ring, []) =
     (ex_ring, [] @ map (\<lambda>i. ex_lines ! i @ [CHR 0x0A]) (index_range (bufidx ex_ring) (1 / 2) (3 / 2)) @ [''OK''])"
    using ex_ring_ne ex_ring_inv ex_ring_sorted ex_ring_lines by (rule data_read_range_reply)
  then have "data_read ex_runtime create_sensors [1 / 2, 3 / 2] (ex_ring, []) =
     (ex_ring, [ex_line ''1.000000'' ''0.900000'' @ [CHR 0x0A],
                ex_line ''2.000000'' ''0.200000'' @ [CHR 0x0A], ''OK''])"
    by (simp add: ir ex_lines_def)
  moreover have "\<not> tstamp (bufidx ex_ring) 2 \<le> 3 / 2" "bufadc ex_ring ! 2 = ex_record (1 / 5) ex_pt100"
    by (simp_all add: tstamp_def ex_ring_def ex_bufidx_def)
  moreover have "times (bufidx ex_ring) = [0, 1, 2, 3]"
    by (simp add: times_def ex_ring_def ex_bufidx_def)
  ultimately show ?thesis by simp
qed

text \<open>
  A window that lies after the whole ring is answered with the newest record, not with an
  error.
\<close>

lemma data_read_range_past_ring:
  "data_read ex_runtime create_sensors [10, 20] (ex_ring, []) =
     (ex_ring, [ex_line ''3.000000'' ''0.100000'' @ [CHR 0x0A], ''OK''])"
proof -
  have ir: "index_range (bufidx ex_ring) 10 20 = [3]"
    by (simp add: index_range_def index_at_def ex_ring_def ex_bufidx_def upt_conv_Cons)
  have "data_read ex_runtime create_sensors [10, 20] (ex_ring, []) =
     (ex_ring, [] @ map (\<lambda>i. ex_lines ! i @ [CHR 0x0A]) (index_range (bufidx ex_ring) 10 20) @ [''OK''])"
    using ex_ring_ne ex_ring_inv ex_ring_sorted ex_ring_lines by (rule data_read_range_reply)
  then show ?thesis by (simp add: ir ex_lines_def)
qed

text \<open>
  What the range dump sends in general, on a non-empty ring with non-decreasing timestamps
  whose records can all be formatted: the lines of the positions from the index of \<open>t0\<close>
  to the index of \<open>t1\<close>, in ring order, and then \<open>OK\<close>. The records with \<open>t0 \<le> t < t1\<close>
  are among them, and the positions before the index of \<open>t1\<close> are such records; the
  position at the index of \<open>t1\<close> is sent whatever its timestamp.
\<close>

lemma data_read_range_lines:
  assumes "bufidx r \<noteq> []" and "ring_inv r" and "sorted (times (bufidx r))"
    and "\<forall>i < length (bufidx r).
           format_record rt sens (tstamp (bufidx r) i) (bufadc r ! i) = Inr (line i)"
  shows "data_read rt sens [t0, t1] (r, out) =
           (r, out @ map (\<lambda>i. line i @ [CHR 0x0A]) (index_range (bufidx r) t0 t1) @ [''OK''])
    \<and> (\<forall>i < length (bufidx r).
          t0 \<le> tstamp (bufidx r) i \<and> tstamp (bufidx r) i < t1
            \<longrightarrow> i \<in> set (index_range (bufidx r) t0 t1))
    \<and> (\<forall>i \<in> set (index_range (bufidx r) t0 t1).
          i < index_at (bufidx r) t1
            \<longrightarrow> t0 \<le> tstamp (bufidx r) i \<and> tstamp (bufidx r) i < t1)
    \<and> (sorted_wrt (<) (times (bufidx r)) \<longrightarrow>
         (\<forall>i < length (bufidx r).
            t0 \<le> tstamp (bufidx r) i \<and> tstamp (bufidx r) i \<le> t1
              \<longrightarrow> i \<in> set (index_range (bufidx r) t0 t1)))"
proof (intro conjI allI impI ballI)
  show "data_read rt sens [t0, t1] (r, out) =
           (r, out @ map (\<lambda>i. line i @ [CHR 0x0A]) (index_range (bufidx r) t0 t1) @ [''OK''])"
    using assms by (rule data_read_range_reply)
next
  fix i assume "i < length (bufidx r)"
    "t0 \<le> tstamp (bufidx r) i \<and> tstamp (bufidx r) i < t1"
  then show "i \<in> set (index_range (bufidx r) t0 t1)"
    using assms(3) by (intro index_range_covers) simp_all
next
  fix i assume "i \<in> set (index_range (bufidx r) t0 t1)" "i < index_at (bufidx r) t1"
  with assms(3,1) have "t0 \<le> tstamp (bufidx r) i \<and> tstamp (bufidx r) i < t1"
    by (intro index_range_inside)
  then show "t0 \<le> tstamp (bufidx r) i" "tstamp (bufidx r) i < t1" by simp_all
next
  fix i assume s: "sorted_wrt (<) (times (bufidx r))" and i: "i < length (bufidx r)"
    and t: "t0 \<le> tstamp (bufidx r) i \<and> tstamp (bufidx r) i \<le> t1"
  show "i \<in> set (index_range (bufidx r) t0 t1)"
  proof (cases "tstamp (bufidx r) i = t1")
    case True
    with s i t show ?thesis by (intro index_range_covers_end) simp_all
  next
    case False
    with t have "tstamp (bufidx r) i < t1" by simp
    with assms(3) i t show ?thesis by (intro index_range_covers) simp_all
  qed
qed

text \<open>
  With two records of the same timestamp, a range ending at that timestamp stops at the
  first of them.
\<close>

lemma data_read_range_twin_times:
  "sorted (times (bufidx ex_twin_ring)) \<and> tstamp (bufidx ex_twin_ring) 2 = 1 \<and>
   bufadc ex_twin_ring ! 2 = ex_record (1 / 5) ex_pt100 \<and>
   data_read ex_runtime create_sensors [0, 1] (ex_twin_ring, []) =
     (ex_twin_ring, [ex_line ''0.000000'' ''0.100000'' @ [CHR 0x0A],
                     ex_line ''1.000000'' ''0.900000'' @ [CHR 0x0A], ''OK''])"
proof -
  have h: "bufidx ex_twin_ring \<noteq> []" "ring_inv ex_twin_ring" "sorted (times (bufidx ex_twin_ring))"
    by (simp_all add: ex_twin_ring_def ring_inv_def times_def)
  have "format_record ex_runtime create_sensors (tstamp (bufidx ex_twin_ring) i) (bufadc ex_twin_ring ! i)
       = Inr ([ex_line ''0.000000'' ''0.100000'', ex_line ''1.000000'' ''0.900000'',
               ex_line ''1.000000'' ''0.200000''] ! i)" if "i = 0 \<or> i = 1 \<or> i = 2" for i
    using that fmt_ex_record[OF sf(1) sf(9)] fmt_ex_record[OF sf(2) sf(10)]
      fmt_ex_record[OF sf(2) sf(11)]
    by (auto simp: ex_twin_ring_def tstamp_def)
  moreover have "i = 0 \<or> i = 1 \<or> i = 2" if "i < length (bufidx ex_twin_ring)" for i
    using that by (auto simp: ex_twin_ring_def)
  ultimately have fmt: "\<forall>i < length (bufidx ex_twin_ring).
     format_record ex_runtime create_sensors (tstamp (bufidx ex_twin_ring) i) (bufadc ex_twin_ring ! i)
       = Inr ([ex_line ''0.000000'' ''0.100000'', ex_line ''1.000000'' ''0.900000'',
               ex_line ''1.000000'' ''0.200000''] ! i)"
    by blast
  have ir: "index_range (bufidx ex_twin_ring) 0 1 = [0, 1]"
    by (simp add: index_range_def index_at_def ex_twin_ring_def upt_conv_Cons)
  have "data_read ex_runtime create_sensors [0, 1] (ex_twin_ring, []) =
     (ex_twin_ring, [] @ map (\<lambda>i. [ex_line ''0.000000'' ''0.100000'', ex_line ''1.000000'' ''0.900000'',
               ex_line ''1.000000'' ''0.200000''] ! i @ [CHR 0x0A]) (index_range (bufidx ex_twin_ring) 0 1) @ [''OK''])"
    using h fmt by (rule data_read_range_reply)
  then have "data_read ex_runtime create_sensors [0, 1] (ex_twin_ring, []) =
     (ex_twin_ring, [ex_line ''0.000000'' ''0.100000'' @ [CHR 0x0A],
                     ex_line ''1.000000'' ''0.900000'' @ [CHR 0x0A], ''OK''])"
    by (simp add: ir)
  moreover have "tstamp (bufidx ex_twin_ring) 2 = 1" "bufadc ex_twin_ring ! 2 = ex_record (1 / 5) ex_pt100"
    by (simp_all add: tstamp_def ex_twin_ring_def)
  ultimately show ?thesis using h(3) by simp
qed

section \<open>The query paths on the empty ring\<close>










section \<open>The peak search\<close>


lemma convert_column_map:
  "\<forall>i \<in> set ps. s < length (h i) \<and> f (h i ! s) = Inr (g i) \<Longrightarrow>
   convert_column f s (map h ps) = Inr (map g ps)"
  by (induction ps) auto



text \<open>The value of the running maximum is the largest value it has seen.\<close>

lemma running_max_snd:
  "snd (running_max x y ks pk) = Max (set (snd pk # map (nth y) ks))"
proof -
  have "snd (fold (\<lambda>i pk. if snd pk < y ! i then (x ! i, y ! i) else pk) ks pk)
      = fold max (map (nth y) ks) (snd pk)"
    by (induction ks arbitrary: pk) (auto simp: max_def)
  then show ?thesis unfolding running_max_def Max.set_eq_fold .
qed















end
